theory Spec2Isabelle
  imports Main "HOL-Library.Word"
begin

section \<open>Errors\<close>

text \<open>
  A Go \<^verbatim>\<open>error\<close> value. \<open>ErrorString m\<close> is a plain error, \<open>TemporaryError m b\<close> is an
  error implementing \<^verbatim>\<open>atlantis.TemporaryError\<close> whose \<^verbatim>\<open>Temporary()\<close> method returns
  \<open>b\<close>, and \<open>Wrapf m e\<close> is \<^verbatim>\<open>fmt.Errorf("m: %w", e)\<close>. A nil error is \<open>None\<close> of
  \<open>error option\<close>.
\<close>

datatype error =
    ErrorString string
  | TemporaryError string bool
  | Wrapf string error

text \<open>
  \<^verbatim>\<open>errors.As(err, &tmp) && tmp.Temporary()\<close>: the first error of the chain that implements
  the interface decides.
\<close>

fun isTemporary :: "error \<Rightarrow> bool" where
  "isTemporary (ErrorString m) = False"
| "isTemporary (TemporaryError m b) = b"
| "isTemporary (Wrapf m e) = isTemporary e"

text \<open>The chain that \<^verbatim>\<open>errors.Unwrap\<close> walks, the error itself first.\<close>

fun chain :: "error \<Rightarrow> error list" where
  "chain (Wrapf m e) = Wrapf m e # chain e"
| "chain e = [e]"

section \<open>Data of the collaborators\<close>

text \<open>
  The packages \<^verbatim>\<open>processedcache\<close>, \<^verbatim>\<open>atlantis\<close> and \<^verbatim>\<open>terraform\<close> are used by the engine
  through the calls below only; their types are given by the fields the engine reads and
  writes. Times are nanoseconds as \<open>int\<close>.
\<close>

datatype ConsiderDriftChecked = ConsiderDriftChecked string string
  \<comment> \<open>\<^verbatim>\<open>Dir\<close>, \<^verbatim>\<open>Workspace\<close>\<close>

datatype DriftCheckValue = DriftCheckValue (When: int) (Error: string) (Drift: bool)

datatype ConsiderWorkspacesChecked = ConsiderWorkspacesChecked string
  \<comment> \<open>\<^verbatim>\<open>Dir\<close>\<close>

datatype WorkspacesCheckedValue =
  WorkspacesCheckedValue (Workspaces: "string list") (WorkspacesWhen: int)

datatype PlanSummaryRequest = PlanSummaryRequest string string string string string
  \<comment> \<open>\<^verbatim>\<open>Repo\<close>, \<^verbatim>\<open>Ref\<close>, \<^verbatim>\<open>Type\<close>, \<^verbatim>\<open>Dir\<close>, \<^verbatim>\<open>Workspace\<close>\<close>

text \<open>The plan result, as the values of the three methods the engine calls on it.\<close>

record PlanResult =
  IsLocked :: bool
  HasChanges :: bool
  GetPlanResultSummary :: string

text \<open>
  \<^verbatim>\<open>atlantis.DirectoriesWithWorkspaces\<close> is a Go map from directory to workspace names. The
  engine uses \<^verbatim>\<open>ws.SortedKeys()\<close> and \<^verbatim>\<open>ws[dir]\<close> (the empty slice for a missing key).
\<close>

record DirectoriesWithWorkspaces =
  SortedKeys :: "string list"
  index :: "string \<Rightarrow> string list"

section \<open>Effects\<close>

text \<open>Go's \<^verbatim>\<open>int32\<close>: addition wraps around, \<open>sint\<close> reads the signed value.\<close>

type_synonym int32 = "32 word"

text \<open>
  Every call the engine makes on a collaborator, with its arguments. The summary
  notification is recorded with the list of the \<^verbatim>\<open>int32\<close> arguments passed after the
  context.
\<close>

datatype call =
    CallGetAccessToken
  | CallClone string
  | CallRemoveAll string
  | CallGenerateAtlantisProjectsFile
  | CallParseRepoConfigFromDir string string
  | CallGetDriftCheckResult ConsiderDriftChecked
  | CallDeleteDriftCheckResult ConsiderDriftChecked
  | CallStoreDriftCheckResult ConsiderDriftChecked DriftCheckValue
  | CallGetRemoteWorkspaces ConsiderWorkspacesChecked
  | CallDeleteRemoteWorkspaces ConsiderWorkspacesChecked
  | CallStoreRemoteWorkspaces ConsiderWorkspacesChecked WorkspacesCheckedValue
  | CallPlanSummary PlanSummaryRequest
  | CallInit string
  | CallListWorkspaces string
  | CallPlanDrift string string string
  | CallExtraWorkspaceInRemote string string
  | CallWorkspaceDriftSummary "int32 list"

text \<open>
  The log of a run: each collaborator call with the error it returned (\<open>None\<close> for nil),
  and each \<^verbatim>\<open>atomic.AddInt32(&d.DriftedWorkspaceCount, 1)\<close>.
\<close>

datatype event = Call call "error option" | AtomicAddInt32

text \<open>
  The state threaded through the engine: the world of the collaborators (of any type
  \<open>'w\<close>), the counter field of the \<^verbatim>\<open>Drifter\<close> struct, and the log.
\<close>

record 'w state =
  world :: 'w
  DriftedWorkspaceCount :: int32
  trace :: "event list"

section \<open>Collaborators\<close>

text \<open>
  Each collaborator method is a parameter: a function of its arguments and the world that
  returns its result and the new world. The context argument is left out: the sequential
  path hands the caller's context on unchanged.
\<close>

record 'w ProcessedCache =
  GetDriftCheckResult :: "ConsiderDriftChecked \<Rightarrow> 'w \<Rightarrow> (error + DriftCheckValue option) \<times> 'w"
  DeleteDriftCheckResult :: "ConsiderDriftChecked \<Rightarrow> 'w \<Rightarrow> error option \<times> 'w"
  StoreDriftCheckResult :: "ConsiderDriftChecked \<Rightarrow> DriftCheckValue \<Rightarrow> 'w \<Rightarrow> error option \<times> 'w"
  GetRemoteWorkspaces :: "ConsiderWorkspacesChecked \<Rightarrow> 'w \<Rightarrow> (error + WorkspacesCheckedValue option) \<times> 'w"
  DeleteRemoteWorkspaces :: "ConsiderWorkspacesChecked \<Rightarrow> 'w \<Rightarrow> error option \<times> 'w"
  StoreRemoteWorkspaces :: "ConsiderWorkspacesChecked \<Rightarrow> WorkspacesCheckedValue \<Rightarrow> 'w \<Rightarrow> error option \<times> 'w"

record 'w TerraformClient =
  SetDirectory :: "string \<Rightarrow> 'w \<Rightarrow> 'w"
  Init :: "string \<Rightarrow> 'w \<Rightarrow> error option \<times> 'w"
  ListWorkspaces :: "string \<Rightarrow> 'w \<Rightarrow> (error + string list) \<times> 'w"

text \<open>
  The notification sink, with the methods the engine calls. \<^verbatim>\<open>WorkspaceDriftSummary\<close>
  takes the list of the \<^verbatim>\<open>int32\<close> arguments it is called with.
\<close>

record 'w Notification =
  ExtraWorkspaceInRemote :: "string \<Rightarrow> string \<Rightarrow> 'w \<Rightarrow> error option \<times> 'w"
  PlanDrift :: "string \<Rightarrow> string \<Rightarrow> string \<Rightarrow> 'w \<Rightarrow> error option \<times> 'w"
  WorkspaceDriftSummary :: "int32 list \<Rightarrow> 'w \<Rightarrow> error option \<times> 'w"

text \<open>
  The \<^verbatim>\<open>Drifter\<close> struct: its settings, its collaborators, and the functions of other
  packages and of the file system that \<^verbatim>\<open>Drift\<close> calls before the two passes
  (\<^verbatim>\<open>GetAccessToken\<close> of the GitHub client, \<^verbatim>\<open>Clone\<close> of the cloner, which returns the
  location of the checkout, \<^verbatim>\<open>os.RemoveAll\<close>, the generation of the project file and the
  parsing of the configuration). The mutable field \<^verbatim>\<open>DriftedWorkspaceCount\<close> is in the
  state. \<open>Now\<close> reads the clock of the world (\<^verbatim>\<open>time.Now()\<close>).
\<close>

record 'w Drifter =
  Repo :: string
  AtlantisRepoYmlPath :: string
  CacheValidDuration :: int
  DirectoryAllowlist :: "string list"
  SkipWorkspaceCheck :: bool
  ParallelRuns :: int
  AutoGenerateConfig :: bool
  ResultCache :: "'w ProcessedCache"
  Terraform :: "'w TerraformClient"
  Notification :: "'w Notification"
  PlanSummary :: "PlanSummaryRequest \<Rightarrow> 'w \<Rightarrow> (error + PlanResult) \<times> 'w"
  GetAccessToken :: "'w \<Rightarrow> (error + string) \<times> 'w"
  Clone :: "string \<Rightarrow> 'w \<Rightarrow> (error + string) \<times> 'w"
  RemoveAll :: "string \<Rightarrow> 'w \<Rightarrow> error option \<times> 'w"
  generateAtlantisProjectsFile :: "'w \<Rightarrow> error option \<times> 'w"
  ParseRepoConfigFromDir :: "string \<Rightarrow> string \<Rightarrow> 'w \<Rightarrow> (error + DirectoriesWithWorkspaces) \<times> 'w"
  Now :: "'w \<Rightarrow> int"

text \<open>A call that returns an error only, and a call that returns a value or an error.\<close>

definition invoke :: "call \<Rightarrow> ('w \<Rightarrow> error option \<times> 'w) \<Rightarrow> 'w state \<Rightarrow> error option \<times> 'w state" where
  "invoke c f s =
     (case f (world s) of
        (r, w) \<Rightarrow> (r, s\<lparr>world := w, trace := trace s @ [Call c r]\<rparr>))"

definition invokeR :: "call \<Rightarrow> ('w \<Rightarrow> (error + 'a) \<times> 'w) \<Rightarrow> 'w state \<Rightarrow> (error + 'a) \<times> 'w state" where
  "invokeR c f s =
     (case f (world s) of
        (r, w) \<Rightarrow>
          (r, s\<lparr>world := w,
                trace := trace s @ [Call c (case r of Inl e \<Rightarrow> Some e | Inr v \<Rightarrow> None)]\<rparr>))"

section \<open>Time\<close>

text \<open>
  \<^verbatim>\<open>time.Since(t)\<close> is \<^verbatim>\<open>time.Now().Sub(t)\<close>, a \<^verbatim>\<open>time.Duration\<close> (an \<^verbatim>\<open>int64\<close> of
  nanoseconds) that saturates at the smallest and the largest duration.
\<close>

definition minDuration :: int where
  "minDuration = - (2 ^ 63)"

definition maxDuration :: int where
  "maxDuration = 2 ^ 63 - 1"

definition Since :: "int \<Rightarrow> int \<Rightarrow> int" where
  "Since now t = max minDuration (min maxDuration (now - t))"

section \<open>The directory filter\<close>

text \<open>\<^verbatim>\<open>strings.HasPrefix\<close> and \<^verbatim>\<open>strings.Contains\<close>.\<close>

definition HasPrefix :: "string \<Rightarrow> string \<Rightarrow> bool" where
  "HasPrefix s p = (take (length p) s = p)"

fun Contains :: "string \<Rightarrow> string \<Rightarrow> bool" where
  "Contains [] substr = (substr = [])"
| "Contains (c # s) substr = (HasPrefix (c # s) substr \<or> Contains s substr)"

definition shouldSkipDirectory :: "'w Drifter \<Rightarrow> string \<Rightarrow> bool" where
  "shouldSkipDirectory d dir =
     (if length (DirectoryAllowlist d) = 0 then False
      else \<not> (\<exists>allowedDirectoryPattern \<in> set (DirectoryAllowlist d).
                 Contains dir allowedDirectoryPattern))"

section \<open>The scheduler\<close>

type_synonym 'w errFunc = "'w state \<Rightarrow> error option \<times> 'w state"

text \<open>The loop of \<^verbatim>\<open>drainAndExecute\<close> for \<^verbatim>\<open>d.ParallelRuns <= 1\<close>.\<close>

fun runInOrder :: "'w errFunc list \<Rightarrow> 'w errFunc" where
  "runInOrder [] s = (None, s)"
| "runInOrder (r # toRun) s =
     (case r s of
        (Some err, s') \<Rightarrow> (Some err, s')
      | (None, s') \<Rightarrow> runInOrder toRun s')"

text \<open>
  \<^verbatim>\<open>drainAndExecute\<close>. With \<^verbatim>\<open>d.ParallelRuns > 1\<close> the functions run on the goroutines
  of an \<^verbatim>\<open>errgroup\<close>, interleaved at every collaborator call; that path has no value in
  this embedding, and the result is \<open>None\<close> there.
\<close>

definition drainAndExecute :: "'w Drifter \<Rightarrow> 'w errFunc list \<Rightarrow> 'w state \<Rightarrow> (error option \<times> 'w state) option" where
  "drainAndExecute d toRun s =
     (if ParallelRuns d \<le> 1 then Some (runInOrder toRun s) else None)"

section \<open>The drift checker\<close>

text \<open>
  The body of the loop over the workspaces of a directory in \<^verbatim>\<open>FindDriftedWorkspaces\<close>,
  from the plan query on: the query, the temporary-error test, the store of the cache
  record, the lock check, and the increment and the notification of a drift. The result
  \<open>None\<close> is the loop going on to the next workspace (\<^verbatim>\<open>continue\<close> or the end of the
  body), \<open>Some err\<close> is \<^verbatim>\<open>return err\<close>.
\<close>

definition queryAndClassify :: "'w Drifter \<Rightarrow> string \<Rightarrow> string \<Rightarrow> 'w errFunc" where
  "queryAndClassify d dir workspace s =
     (let cacheKey = ConsiderDriftChecked dir workspace;
          req = PlanSummaryRequest (Repo d) ''master'' ''Github'' dir workspace
      in case invokeR (CallPlanSummary req) (PlanSummary d req) s of
           (Inl err, s1) \<Rightarrow>
             if isTemporary err then (None, s1)
             else (Some (Wrapf (''failed to get plan summary for ('' @ dir @ ''#'' @ workspace @ '')'') err), s1)
         | (Inr pr, s1) \<Rightarrow>
             (let v = DriftCheckValue (Now d (world s1)) [] (HasChanges pr)
              in case invoke (CallStoreDriftCheckResult cacheKey v)
                        (StoreDriftCheckResult (ResultCache d) cacheKey v) s1 of
                   (Some err, s2) \<Rightarrow>
                     (Some (Wrapf (''failed to store cache value for '' @ dir @ ''/'' @ workspace) err), s2)
                 | (None, s2) \<Rightarrow>
                     if IsLocked pr then (None, s2)
                     else if HasChanges pr then
                       (let s3 = s2\<lparr>DriftedWorkspaceCount := DriftedWorkspaceCount s2 + 1,
                                    trace := trace s2 @ [AtomicAddInt32]\<rparr>;
                            cliffnote = GetPlanResultSummary pr
                        in case invoke (CallPlanDrift dir workspace cliffnote)
                                  (PlanDrift (Notification d) dir workspace cliffnote) s3 of
                             (Some err, s4) \<Rightarrow>
                               (Some (Wrapf (''failed to notify of plan drift in '' @ dir) err), s4)
                           | (None, s4) \<Rightarrow> (None, s4))
                     else (None, s2)))"

text \<open>
  The whole body of that loop: the cache lookup, the test of the record's age against
  \<^verbatim>\<open>d.CacheValidDuration\<close>, the deletion of a record that is not fresh, and the rest above.
\<close>

definition checkWorkspace :: "'w Drifter \<Rightarrow> string \<Rightarrow> string \<Rightarrow> 'w errFunc" where
  "checkWorkspace d dir workspace s =
     (let cacheKey = ConsiderDriftChecked dir workspace
      in case invokeR (CallGetDriftCheckResult cacheKey)
                (GetDriftCheckResult (ResultCache d) cacheKey) s of
           (Inl err, s1) \<Rightarrow>
             (Some (Wrapf (''failed to get cache value for '' @ dir @ ''/'' @ workspace) err), s1)
         | (Inr None, s1) \<Rightarrow> queryAndClassify d dir workspace s1
         | (Inr (Some cacheVal), s1) \<Rightarrow>
             if Since (Now d (world s1)) (When cacheVal) < CacheValidDuration d then (None, s1)
             else
               (case invoke (CallDeleteDriftCheckResult cacheKey)
                       (DeleteDriftCheckResult (ResultCache d) cacheKey) s1 of
                  (Some err, s2) \<Rightarrow>
                    (Some (Wrapf (''failed to delete cache value for '' @ dir @ ''/'' @ workspace) err), s2)
                | (None, s2) \<Rightarrow> queryAndClassify d dir workspace s2))"

text \<open>The loop \<^verbatim>\<open>for _, workspace := range workspaces\<close>.\<close>

fun checkWorkspaces :: "'w Drifter \<Rightarrow> string \<Rightarrow> string list \<Rightarrow> 'w errFunc" where
  "checkWorkspaces d dir [] s = (None, s)"
| "checkWorkspaces d dir (workspace # workspaces) s =
     (case checkWorkspace d dir workspace s of
        (Some err, s') \<Rightarrow> (Some err, s')
      | (None, s') \<Rightarrow> checkWorkspaces d dir workspaces s')"

text \<open>The work function of a directory, \<^verbatim>\<open>runningFunc(dir)\<close>.\<close>

definition runningFunc :: "'w Drifter \<Rightarrow> DirectoriesWithWorkspaces \<Rightarrow> string \<Rightarrow> 'w errFunc" where
  "runningFunc d ws dir s =
     (if shouldSkipDirectory d dir then (None, s)
      else checkWorkspaces d dir (index ws dir) s)"

definition FindDriftedWorkspaces :: "'w Drifter \<Rightarrow> DirectoriesWithWorkspaces \<Rightarrow> 'w state \<Rightarrow> (error option \<times> 'w state) option" where
  "FindDriftedWorkspaces d ws s =
     drainAndExecute d (map (runningFunc d ws) (SortedKeys ws)) s"

section \<open>The workspace reconciler\<close>

text \<open>\<^verbatim>\<open>contains\<close>, the membership test on a slice of names.\<close>

fun contains :: "string list \<Rightarrow> string \<Rightarrow> bool" where
  "contains [] w = False"
| "contains (workspace # workspaces) w = (if workspace = w then True else contains workspaces w)"

text \<open>
  The loop over the remote workspaces in \<^verbatim>\<open>FindExtraWorkspaces\<close>: a notification for each
  one that the expected workspaces do not contain, returning at the first one that fails.
\<close>

fun notifyExtraWorkspaces :: "'w Drifter \<Rightarrow> string \<Rightarrow> string list \<Rightarrow> string list \<Rightarrow> 'w errFunc" where
  "notifyExtraWorkspaces d dir expectedWorkspaces [] s = (None, s)"
| "notifyExtraWorkspaces d dir expectedWorkspaces (w # remoteWorkspaces) s =
     (if \<not> contains expectedWorkspaces w then
        (case invoke (CallExtraWorkspaceInRemote dir w)
                (ExtraWorkspaceInRemote (Notification d) dir w) s of
           (Some err, s') \<Rightarrow>
             (Some (Wrapf (''failed to notify of extra workspace '' @ w @ '' in '' @ dir) err), s')
         | (None, s') \<Rightarrow> notifyExtraWorkspaces d dir expectedWorkspaces remoteWorkspaces s')
      else notifyExtraWorkspaces d dir expectedWorkspaces remoteWorkspaces s)"

text \<open>
  The work function of a directory, \<^verbatim>\<open>runFunc(dir)\<close>, after the cache lookup: the
  initialisation, the listing, the notifications and the store of the listing.
\<close>

definition listAndReport :: "'w Drifter \<Rightarrow> DirectoriesWithWorkspaces \<Rightarrow> string \<Rightarrow> 'w errFunc" where
  "listAndReport d ws dir s =
     (let cacheKey = ConsiderWorkspacesChecked dir;
          workspaces = index ws dir
      in case invoke (CallInit dir) (Init (Terraform d) dir) s of
           (Some err, s1) \<Rightarrow> (Some (Wrapf (''failed to init workspace '' @ dir) err), s1)
         | (None, s1) \<Rightarrow>
             (let expectedWorkspaces = workspaces @ [''default'']
              in case invokeR (CallListWorkspaces dir) (ListWorkspaces (Terraform d) dir) s1 of
                   (Inl err, s2) \<Rightarrow> (Some (Wrapf (''failed to list workspaces in '' @ dir) err), s2)
                 | (Inr remoteWorkspaces, s2) \<Rightarrow>
                     (case notifyExtraWorkspaces d dir expectedWorkspaces remoteWorkspaces s2 of
                        (Some err, s3) \<Rightarrow> (Some err, s3)
                      | (None, s3) \<Rightarrow>
                          (let v = WorkspacesCheckedValue remoteWorkspaces (Now d (world s3))
                           in case invoke (CallStoreRemoteWorkspaces cacheKey v)
                                     (StoreRemoteWorkspaces (ResultCache d) cacheKey v) s3 of
                                (Some err, s4) \<Rightarrow>
                                  (Some (Wrapf (''failed to store cache value for '' @ dir) err), s4)
                              | (None, s4) \<Rightarrow> (None, s4)))))"

text \<open>The whole work function \<^verbatim>\<open>runFunc(dir)\<close>.\<close>

definition runFunc :: "'w Drifter \<Rightarrow> DirectoriesWithWorkspaces \<Rightarrow> string \<Rightarrow> 'w errFunc" where
  "runFunc d ws dir s =
     (if shouldSkipDirectory d dir then (None, s)
      else
        (let cacheKey = ConsiderWorkspacesChecked dir
         in case invokeR (CallGetRemoteWorkspaces cacheKey)
                   (GetRemoteWorkspaces (ResultCache d) cacheKey) s of
              (Inl err, s1) \<Rightarrow> (Some (Wrapf (''failed to get cache value for '' @ dir) err), s1)
            | (Inr None, s1) \<Rightarrow> listAndReport d ws dir s1
            | (Inr (Some cacheVal), s1) \<Rightarrow>
                if Since (Now d (world s1)) (WorkspacesWhen cacheVal) < CacheValidDuration d
                then (None, s1)
                else
                  (case invoke (CallDeleteRemoteWorkspaces cacheKey)
                          (DeleteRemoteWorkspaces (ResultCache d) cacheKey) s1 of
                     (Some err, s2) \<Rightarrow>
                       (Some (Wrapf (''failed to delete cache value for '' @ dir) err), s2)
                   | (None, s2) \<Rightarrow> listAndReport d ws dir s2)))"

definition FindExtraWorkspaces :: "'w Drifter \<Rightarrow> DirectoriesWithWorkspaces \<Rightarrow> 'w state \<Rightarrow> (error option \<times> 'w state) option" where
  "FindExtraWorkspaces d ws s =
     (if SkipWorkspaceCheck d then Some (None, s)
      else drainAndExecute d (map (runFunc d ws) (SortedKeys ws)) s)"

section \<open>The run\<close>

text \<open>
  \<^verbatim>\<open>Drift\<close> after the checkout: the optional generation of the project file, the parsing
  of the configuration into the workspaces (\<^verbatim>\<open>ParseRepoConfigFromDir\<close> and
  \<^verbatim>\<open>ConfigToWorkspaces\<close>, one parameter), the two passes, and the summary notification,
  called with the counter alone and with its result dropped.
\<close>

definition driftChecks :: "'w Drifter \<Rightarrow> string \<Rightarrow> 'w state \<Rightarrow> (error option \<times> 'w state) option" where
  "driftChecks d location s =
     (case (if AutoGenerateConfig d
            then invoke CallGenerateAtlantisProjectsFile (generateAtlantisProjectsFile d) s
            else (None, s)) of
        (Some err, s1) \<Rightarrow> Some (Some err, s1)
      | (None, s1) \<Rightarrow>
          (case invokeR (CallParseRepoConfigFromDir (AtlantisRepoYmlPath d) location)
                  (ParseRepoConfigFromDir d (AtlantisRepoYmlPath d) location) s1 of
             (Inl err, s2) \<Rightarrow> Some (Some (Wrapf ''failed to parse repo config'' err), s2)
           | (Inr workspaces, s2) \<Rightarrow>
               (case FindDriftedWorkspaces d workspaces s2 of
                  None \<Rightarrow> None
                | Some (Some err, s3) \<Rightarrow>
                    Some (Some (Wrapf ''failed to find drifted workspaces'' err), s3)
                | Some (None, s3) \<Rightarrow>
                    (case FindExtraWorkspaces d workspaces s3 of
                       None \<Rightarrow> None
                     | Some (Some err, s4) \<Rightarrow>
                         Some (Some (Wrapf ''failed to find extra workspaces'' err), s4)
                     | Some (None, s4) \<Rightarrow>
                         (case invoke (CallWorkspaceDriftSummary [DriftedWorkspaceCount s4])
                                 (WorkspaceDriftSummary (Notification d) [DriftedWorkspaceCount s4]) s4 of
                            (ignored, s5) \<Rightarrow> Some (None, s5))))))"

text \<open>\<^verbatim>\<open>atlantisgithub.CheckOutTerraformRepo\<close>: the access token, then the clone.\<close>

definition CheckOutTerraformRepo :: "'w Drifter \<Rightarrow> string \<Rightarrow> 'w state \<Rightarrow> (error + string) \<times> 'w state" where
  "CheckOutTerraformRepo d repo s =
     (case invokeR CallGetAccessToken (GetAccessToken d) s of
        (Inl err, s1) \<Rightarrow> (Inl (Wrapf ''failed to get access token'' err), s1)
      | (Inr token, s1) \<Rightarrow>
          (let githubRepoURL = ''https://x-access-token:'' @ token @ ''@github.com/'' @ repo @ ''.git''
           in case invokeR (CallClone githubRepoURL) (Clone d githubRepoURL) s1 of
                (Inl err, s2) \<Rightarrow> (Inl (Wrapf ''failed to clone repo'' err), s2)
              | (Inr repository, s2) \<Rightarrow> (Inr repository, s2)))"

text \<open>
  \<^verbatim>\<open>Drift\<close>: the checkout, the directory of the terraform client set to the checkout's
  location, the deferred removal of the checkout (its error is logged only), and the rest.
\<close>

definition Drift :: "'w Drifter \<Rightarrow> 'w state \<Rightarrow> (error option \<times> 'w state) option" where
  "Drift d s =
     (case CheckOutTerraformRepo d (Repo d) s of
        (Inl err, s1) \<Rightarrow> Some (Some (Wrapf (''failed to checkout repo '' @ Repo d) err), s1)
      | (Inr location, s1) \<Rightarrow>
          (case driftChecks d location
                  (s1\<lparr>world := SetDirectory (Terraform d) location (world s1)\<rparr>) of
             None \<Rightarrow> None
           | Some (result, s2) \<Rightarrow>
               Some (result, snd (invoke (CallRemoveAll location) (RemoveAll d location) s2))))"

section \<open>Observations on the log\<close>

text \<open>The events logged between two states of one run.\<close>

definition eventsSince :: "'w state \<Rightarrow> 'w state \<Rightarrow> event list" where
  "eventsSince s s' = drop (length (trace s)) (trace s')"

fun isPlanQuery :: "event \<Rightarrow> bool" where
  "isPlanQuery (Call (CallPlanSummary req) r) = True"
| "isPlanQuery ev = False"

fun isStore :: "event \<Rightarrow> bool" where
  "isStore (Call (CallStoreDriftCheckResult k v) r) = True"
| "isStore (Call (CallStoreRemoteWorkspaces k v) r) = True"
| "isStore ev = False"

fun isNotification :: "event \<Rightarrow> bool" where
  "isNotification (Call (CallPlanDrift dir w c) r) = True"
| "isNotification (Call (CallExtraWorkspaceInRemote dir w) r) = True"
| "isNotification (Call (CallWorkspaceDriftSummary counts) r) = True"
| "isNotification ev = False"

fun extraWorkspaceNotifications :: "event list \<Rightarrow> (string \<times> string) list" where
  "extraWorkspaceNotifications [] = []"
| "extraWorkspaceNotifications (Call (CallExtraWorkspaceInRemote dir w) r # tr) =
     (dir, w) # extraWorkspaceNotifications tr"
| "extraWorkspaceNotifications (ev # tr) = extraWorkspaceNotifications tr"

fun isStoreRemoteWorkspaces :: "event \<Rightarrow> bool" where
  "isStoreRemoteWorkspaces (Call (CallStoreRemoteWorkspaces k v) r) = True"
| "isStoreRemoteWorkspaces ev = False"

text \<open>The events of notifications that all succeeded, for the names given.\<close>

definition notified :: "string \<Rightarrow> string list \<Rightarrow> event list" where
  "notified dir names = map (\<lambda>w. Call (CallExtraWorkspaceInRemote dir w) None) names"

fun isReconcileStep :: "event \<Rightarrow> bool" where
  "isReconcileStep (Call (CallInit dir) r) = True"
| "isReconcileStep (Call (CallListWorkspaces dir) r) = True"
| "isReconcileStep (Call (CallExtraWorkspaceInRemote dir w) r) = True"
| "isReconcileStep (Call (CallStoreRemoteWorkspaces k v) r) = True"
| "isReconcileStep ev = False"

text \<open>The argument lists of the summary notifications of a log, in order.\<close>

fun summaryNotifications :: "event list \<Rightarrow> int32 list list" where
  "summaryNotifications [] = []"
| "summaryNotifications (Call (CallWorkspaceDriftSummary counts) r # tr) =
     counts # summaryNotifications tr"
| "summaryNotifications (ev # tr) = summaryNotifications tr"

text \<open>
  Three properties of a part of a run, from a state \<open>s\<close> to a state \<open>s'\<close> with result
  \<open>r\<close>: the number of increments logged; that the error of every failed notification is
  in the chain of the result; and both together with a log that extends the one of \<open>s\<close>
  and holds no summary notification.
\<close>

definition increments :: "event list \<Rightarrow> nat" where
  "increments tr = length (filter (\<lambda>ev. ev = AtomicAddInt32) tr)"

definition propagated :: "error option \<Rightarrow> event list \<Rightarrow> bool" where
  "propagated r tr \<longleftrightarrow>
     (\<forall>c e. Call c (Some e) \<in> set tr \<longrightarrow> isNotification (Call c (Some e)) \<longrightarrow>
        (\<exists>err. r = Some err \<and> e \<in> set (chain err)))"

definition accounted :: "'w state \<Rightarrow> error option \<Rightarrow> 'w state \<Rightarrow> bool" where
  "accounted s r s' \<longleftrightarrow>
     (\<exists>tr. trace s' = trace s @ tr \<and> summaryNotifications tr = []
        \<and> DriftedWorkspaceCount s' = DriftedWorkspaceCount s + of_nat (increments tr)
        \<and> propagated r tr)"

text \<open>
  The same for a whole run: its summary notifications are one call with the final counter
  when the result is nil and none otherwise, and the errors of the notifications other than
  the summary are in the chain of the result.
\<close>

definition notSummary :: "event \<Rightarrow> bool" where
  "notSummary ev \<longleftrightarrow> summaryNotifications [ev] = []"

definition finished :: "'w state \<Rightarrow> error option \<Rightarrow> 'w state \<Rightarrow> bool" where
  "finished s r s' \<longleftrightarrow>
     (\<exists>tr. trace s' = trace s @ tr
        \<and> summaryNotifications tr = (if r = None then [[DriftedWorkspaceCount s']] else [])
        \<and> DriftedWorkspaceCount s' = DriftedWorkspaceCount s + of_nat (increments tr)
        \<and> propagated r (filter notSummary tr))"

text \<open>
  The state after the functions of a list have all run in order, whatever they returned.
\<close>

definition stateAfter :: "'w errFunc list \<Rightarrow> 'w state \<Rightarrow> 'w state" where
  "stateAfter fs s = foldl (\<lambda>s f. snd (f s)) s fs"

section \<open>Collaborators for the examples\<close>

text \<open>
  A cache in memory, a clock that the plan query advances by one, and collaborators that
  fail exactly on the calls that \<open>fails\<close> names.
\<close>

record memory =
  driftChecked :: "ConsiderDriftChecked \<Rightarrow> DriftCheckValue option"
  workspacesChecked :: "ConsiderWorkspacesChecked \<Rightarrow> WorkspacesCheckedValue option"
  clock :: int

definition memoryCache :: "(call \<Rightarrow> error option) \<Rightarrow> memory ProcessedCache" where
  "memoryCache fails =
     \<lparr>GetDriftCheckResult = (\<lambda>k m.
        (case fails (CallGetDriftCheckResult k) of
           Some e \<Rightarrow> Inl e | None \<Rightarrow> Inr (driftChecked m k), m)),
      DeleteDriftCheckResult = (\<lambda>k m.
        (case fails (CallDeleteDriftCheckResult k) of
           Some e \<Rightarrow> (Some e, m)
         | None \<Rightarrow> (None, m\<lparr>driftChecked := (driftChecked m)(k := None)\<rparr>))),
      StoreDriftCheckResult = (\<lambda>k v m.
        (case fails (CallStoreDriftCheckResult k v) of
           Some e \<Rightarrow> (Some e, m)
         | None \<Rightarrow> (None, m\<lparr>driftChecked := (driftChecked m)(k \<mapsto> v)\<rparr>))),
      GetRemoteWorkspaces = (\<lambda>k m.
        (case fails (CallGetRemoteWorkspaces k) of
           Some e \<Rightarrow> Inl e | None \<Rightarrow> Inr (workspacesChecked m k), m)),
      DeleteRemoteWorkspaces = (\<lambda>k m.
        (case fails (CallDeleteRemoteWorkspaces k) of
           Some e \<Rightarrow> (Some e, m)
         | None \<Rightarrow> (None, m\<lparr>workspacesChecked := (workspacesChecked m)(k := None)\<rparr>))),
      StoreRemoteWorkspaces = (\<lambda>k v m.
        (case fails (CallStoreRemoteWorkspaces k v) of
           Some e \<Rightarrow> (Some e, m)
         | None \<Rightarrow> (None, m\<lparr>workspacesChecked := (workspacesChecked m)(k \<mapsto> v)\<rparr>)))\<rparr>"

definition stubDrifter ::
  "int \<Rightarrow> int \<Rightarrow> DirectoriesWithWorkspaces \<Rightarrow> (string \<Rightarrow> string \<Rightarrow> error + PlanResult) \<Rightarrow>
   (string \<Rightarrow> string list) \<Rightarrow> (call \<Rightarrow> error option) \<Rightarrow> memory Drifter" where
  "stubDrifter parallel ttl cfg plan remote fails =
     \<lparr>Repo = ''org/infra'',
      AtlantisRepoYmlPath = ''atlantis.yaml'',
      CacheValidDuration = ttl,
      DirectoryAllowlist = [],
      SkipWorkspaceCheck = False,
      ParallelRuns = parallel,
      AutoGenerateConfig = False,
      ResultCache = memoryCache fails,
      Terraform =
        \<lparr>SetDirectory = (\<lambda>location m. m),
         Init = (\<lambda>dir m. (fails (CallInit dir), m)),
         ListWorkspaces = (\<lambda>dir m.
           (case fails (CallListWorkspaces dir) of
              Some e \<Rightarrow> Inl e | None \<Rightarrow> Inr (remote dir), m))\<rparr>,
      Notification =
        \<lparr>ExtraWorkspaceInRemote = (\<lambda>dir w m. (fails (CallExtraWorkspaceInRemote dir w), m)),
         PlanDrift = (\<lambda>dir w c m. (fails (CallPlanDrift dir w c), m)),
         WorkspaceDriftSummary = (\<lambda>counts m. (fails (CallWorkspaceDriftSummary counts), m))\<rparr>,
      PlanSummary = (\<lambda>req m.
        (case req of PlanSummaryRequest repo ref type dir w \<Rightarrow> plan dir w, m\<lparr>clock := clock m + 1\<rparr>)),
      GetAccessToken = (\<lambda>m. (Inr ''token'', m)),
      Clone = (\<lambda>url m. (Inr ''/tmp/checkout'', m)),
      RemoveAll = (\<lambda>location m. (None, m)),
      generateAtlantisProjectsFile = (\<lambda>m. (None, m)),
      ParseRepoConfigFromDir = (\<lambda>path location m. (Inr cfg, m)),
      Now = clock\<rparr>"

definition twoDirectories :: DirectoriesWithWorkspaces where
  "twoDirectories =
     \<lparr>SortedKeys = [''infra/db'', ''infra/network''],
      index = (\<lambda>dir. if dir = ''infra/db'' \<or> dir = ''infra/network'' then [''prod''] else [])\<rparr>"

definition driftInDb :: "string \<Rightarrow> string \<Rightarrow> error + PlanResult" where
  "driftInDb dir w =
     Inr \<lparr>IsLocked = False, HasChanges = (dir = ''infra/db''), GetPlanResultSummary = ''Plan: 1 to add''\<rparr>"

definition emptyMemory :: "memory state" where
  "emptyMemory =
     \<lparr>world = \<lparr>driftChecked = Map.empty, workspacesChecked = Map.empty, clock = 10000\<rparr>,
      DriftedWorkspaceCount = 0,
      trace = []\<rparr>"

definition noFailure :: "call \<Rightarrow> error option" where
  "noFailure c = None"

text \<open>A notification sink that is down: every notification returns an error.\<close>

fun sinkDown :: "call \<Rightarrow> error option" where
  "sinkDown (CallPlanDrift dir w cliffnote) = Some (ErrorString ''webhook down'')"
| "sinkDown (CallExtraWorkspaceInRemote dir w) = Some (ErrorString ''webhook down'')"
| "sinkDown (CallWorkspaceDriftSummary counts) = Some (ErrorString ''webhook down'')"
| "sinkDown c = None"

definition noDrift :: "string \<Rightarrow> string \<Rightarrow> error + PlanResult" where
  "noDrift dir w =
     Inr \<lparr>IsLocked = False, HasChanges = False, GetPlanResultSummary = ''No changes''\<rparr>"

definition lockedInDb :: "string \<Rightarrow> string \<Rightarrow> error + PlanResult" where
  "lockedInDb dir w =
     Inr \<lparr>IsLocked = (dir = ''infra/db''), HasChanges = (dir = ''infra/db''),
          GetPlanResultSummary = ''Plan: 1 to add''\<rparr>"

definition temporaryInDb :: "string \<Rightarrow> string \<Rightarrow> error + PlanResult" where
  "temporaryInDb dir w =
     (if dir = ''infra/db''
      then Inl (Wrapf ''plan request failed'' (TemporaryError ''timeout'' True))
      else Inr \<lparr>IsLocked = False, HasChanges = False, GetPlanResultSummary = ''No changes''\<rparr>)"

definition declaredOnly :: "string \<Rightarrow> string list" where
  "declaredOnly dir = [''prod'', ''default'']"

text \<open>The scenario of two directories, one drifted, with a working sink.\<close>

definition exampleDrifter :: "memory Drifter" where
  "exampleDrifter = stubDrifter 1 3600 twoDirectories driftInDb declaredOnly noFailure"

text \<open>The memory with a drift record for \<^verbatim>\<open>infra/db\<close>, \<^verbatim>\<open>prod\<close> observed at the time given.\<close>

definition cachedAt :: "int \<Rightarrow> memory state" where
  "cachedAt t =
     emptyMemory\<lparr>world := (world emptyMemory)
       \<lparr>driftChecked := [ConsiderDriftChecked ''infra/db'' ''prod'' \<mapsto> DriftCheckValue t [] False]\<rparr>\<rparr>"

text \<open>A directory that declares \<^verbatim>\<open>a\<close> and \<^verbatim>\<open>b\<close>, and a remote that has two workspaces more.\<close>

definition appDirectory :: DirectoriesWithWorkspaces where
  "appDirectory =
     \<lparr>SortedKeys = [''app''],
      index = (\<lambda>dir. if dir = ''app'' then [''a'', ''b''] else [])\<rparr>"

definition appRemote :: "string \<Rightarrow> string list" where
  "appRemote dir = [''a'', ''b'', ''c'', ''default'']"

text \<open>The same scenario with other plan results, other remotes and a sink that is down.\<close>

definition temporaryDrifter :: "memory Drifter" where
  "temporaryDrifter = stubDrifter 1 3600 twoDirectories temporaryInDb declaredOnly noFailure"

definition lockedDrifter :: "memory Drifter" where
  "lockedDrifter = stubDrifter 1 3600 twoDirectories lockedInDb declaredOnly noFailure"

definition sinkDownDrifter :: "memory Drifter" where
  "sinkDownDrifter = stubDrifter 1 3600 twoDirectories driftInDb declaredOnly sinkDown"

definition quietSinkDownDrifter :: "memory Drifter" where
  "quietSinkDownDrifter = stubDrifter 1 3600 twoDirectories noDrift declaredOnly sinkDown"

definition appDrifter :: "memory Drifter" where
  "appDrifter = stubDrifter 1 3600 appDirectory noDrift appRemote noFailure"

definition appSinkDownDrifter :: "memory Drifter" where
  "appSinkDownDrifter = stubDrifter 1 3600 appDirectory noDrift appRemote sinkDown"

text \<open>Two work functions for the scheduler: one increments the counter, one fails.\<close>

definition inc :: "memory errFunc" where
  "inc s = (None, s\<lparr>DriftedWorkspaceCount := DriftedWorkspaceCount s + 1\<rparr>)"

definition boom :: "memory errFunc" where
  "boom s = (Some (ErrorString ''boom''), s)"

section \<open>Unfolding the definitions\<close>

lemmas example_defs =
  exampleDrifter_def temporaryDrifter_def lockedDrifter_def sinkDownDrifter_def
  quietSinkDownDrifter_def appDrifter_def appSinkDownDrifter_def
  stubDrifter_def memoryCache_def twoDirectories_def appDirectory_def appRemote_def
  driftInDb_def noDrift_def lockedInDb_def temporaryInDb_def declaredOnly_def
  emptyMemory_def cachedAt_def noFailure_def

lemmas engine_defs =
  checkWorkspace_def queryAndClassify_def listAndReport_def runFunc_def runningFunc_def
  shouldSkipDirectory_def invoke_def invokeR_def Let_def
  Since_def minDuration_def maxDuration_def eventsSince_def

lemmas run_defs =
  Drift_def CheckOutTerraformRepo_def driftChecks_def FindDriftedWorkspaces_def FindExtraWorkspaces_def drainAndExecute_def

section \<open>The scheduler runs in order and stops at the first error\<close>

lemma stateAfter_Cons: "stateAfter (f # fs) s = stateAfter fs (snd (f s))"
  by (simp add: stateAfter_def)

lemma runInOrder_all_nil:
  "(\<forall>i<length fs. fst ((fs ! i) (stateAfter (take i fs) s)) = None) \<Longrightarrow>
   runInOrder fs s = (None, stateAfter fs s)"
proof (induction fs arbitrary: s)
  case Nil
  show ?case by (simp add: stateAfter_def)
next
  case (Cons f fs)
  from Cons.prems have "fst (f (stateAfter [] s)) = None" by fastforce
  then have f: "f s = (None, snd (f s))" by (simp add: stateAfter_def prod_eq_iff)
  have "\<forall>i<length fs. fst ((fs ! i) (stateAfter (take i fs) (snd (f s)))) = None"
  proof (intro allI impI)
    fix i assume "i < length fs"
    with Cons.prems have "fst (((f # fs) ! Suc i) (stateAfter (take (Suc i) (f # fs)) s)) = None"
      by (metis Suc_less_eq length_Cons)
    then show "fst ((fs ! i) (stateAfter (take i fs) (snd (f s)))) = None"
      by (simp add: stateAfter_Cons)
  qed
  then have "runInOrder fs (snd (f s)) = (None, stateAfter fs (snd (f s)))" by (rule Cons.IH)
  with f show ?case by (metis (no_types, lifting) runInOrder.simps(2) case_prod_conv option.simps(4) stateAfter_Cons)
qed

lemma runInOrder_first_error:
  "i < length fs \<Longrightarrow>
   (\<forall>j<i. fst ((fs ! j) (stateAfter (take j fs) s)) = None) \<Longrightarrow>
   fst ((fs ! i) (stateAfter (take i fs) s)) = Some err \<Longrightarrow>
   runInOrder fs s = (Some err, stateAfter (take (Suc i) fs) s)"
proof (induction fs arbitrary: s i)
  case Nil
  then show ?case by simp
next
  case (Cons f fs)
  show ?case
  proof (cases i)
    case 0
    with Cons.prems have "fst (f s) = Some err" by (simp add: stateAfter_def)
    then have "f s = (Some err, snd (f s))" by (simp add: prod_eq_iff)
    then have "runInOrder (f # fs) s = (Some err, snd (f s))"
      by (metis (no_types, lifting) runInOrder.simps(2) case_prod_conv option.simps(5))
    with 0 show ?thesis by (simp add: stateAfter_def)
  next
    case (Suc k)
    with Cons.prems have "fst (((f # fs) ! 0) (stateAfter (take 0 (f # fs)) s)) = None" by blast
    then have f: "f s = (None, snd (f s))" by (simp add: stateAfter_def prod_eq_iff)
    have k: "k < length fs" using Cons.prems Suc by simp
    have pre: "\<forall>j<k. fst ((fs ! j) (stateAfter (take j fs) (snd (f s)))) = None"
    proof (intro allI impI)
      fix j assume "j < k"
      then have "Suc j < i" using Suc by simp
      with Cons.prems have "fst (((f # fs) ! Suc j) (stateAfter (take (Suc j) (f # fs)) s)) = None"
        by blast
      then show "fst ((fs ! j) (stateAfter (take j fs) (snd (f s)))) = None"
        by (simp add: stateAfter_Cons)
    qed
    have at: "fst ((fs ! k) (stateAfter (take k fs) (snd (f s)))) = Some err"
      using Cons.prems Suc by (simp add: stateAfter_Cons)
    have "runInOrder fs (snd (f s)) = (Some err, stateAfter (take (Suc k) fs) (snd (f s)))"
      using Cons.IH [OF k pre at] .
    with f Suc show ?thesis
      by (metis (no_types, lifting) runInOrder.simps(2) case_prod_conv option.simps(4) stateAfter_Cons take_Suc_Cons)
  qed
qed

text \<open>
  C7. With \<^verbatim>\<open>ParallelRuns <= 1\<close> the scheduler runs the functions in list order, each on
  the state its predecessors left. When the functions of a list all return nil, the result
  is nil and the state is the one after the whole list. When the function that follows
  them returns an error, the result is that error and the state is the one that function
  left, whatever functions come after it: none of them runs.
\<close>

theorem drainAndExecute_in_order:
  assumes "ParallelRuns d \<le> 1"
    and "\<forall>j<length before. fst ((before ! j) (stateAfter (take j before) s)) = None"
    and "r (stateAfter before s) = (Some err, s')"
  shows "drainAndExecute d before s = Some (None, stateAfter before s)
       \<and> drainAndExecute d (before @ r # after) s = Some (Some err, s')"
proof -
  let ?toRun = "before @ r # after"
  have i: "length before < length ?toRun" by simp
  have pre: "\<forall>j<length before. fst ((?toRun ! j) (stateAfter (take j ?toRun) s)) = None"
    using assms(2) by (simp add: nth_append)
  have at: "fst ((?toRun ! length before) (stateAfter (take (length before) ?toRun) s)) = Some err"
    using assms(3) by simp
  have "stateAfter (take (Suc (length before)) ?toRun) s = s'"
    using assms(3) by (simp add: stateAfter_def)
  with runInOrder_first_error [OF i pre at] runInOrder_all_nil [OF assms(2)] assms(1)
  show ?thesis by (simp add: drainAndExecute_def)
qed

theorem drainAndExecute_in_order_witness:
  "ParallelRuns exampleDrifter \<le> 1
   \<and> fst (inc emptyMemory) = None
   \<and> fst (inc (stateAfter [inc] emptyMemory)) = None
   \<and> boom (stateAfter [inc, inc] emptyMemory) =
       (Some (ErrorString ''boom''), emptyMemory\<lparr>DriftedWorkspaceCount := 2\<rparr>)
   \<and> drainAndExecute exampleDrifter [inc, inc] emptyMemory =
       Some (None, emptyMemory\<lparr>DriftedWorkspaceCount := 2\<rparr>)
   \<and> drainAndExecute exampleDrifter ([inc, inc] @ boom # [inc]) emptyMemory =
       Some (Some (ErrorString ''boom''), emptyMemory\<lparr>DriftedWorkspaceCount := 2\<rparr>)"
proof -
  have p: "ParallelRuns exampleDrifter \<le> 1"
    by (simp add: exampleDrifter_def stubDrifter_def)
  have a: "\<forall>j<length [inc, inc]. fst (([inc, inc] ! j) (stateAfter (take j [inc, inc]) emptyMemory)) = None"
    by (simp add: less_Suc_eq stateAfter_def inc_def)
  have s: "stateAfter [inc, inc] emptyMemory = emptyMemory\<lparr>DriftedWorkspaceCount := 2\<rparr>"
    by (simp add: stateAfter_def inc_def emptyMemory_def)
  have b: "boom (stateAfter [inc, inc] emptyMemory) =
       (Some (ErrorString ''boom''), emptyMemory\<lparr>DriftedWorkspaceCount := 2\<rparr>)"
    by (simp add: s boom_def)
  from drainAndExecute_in_order [where d = exampleDrifter and before = "[inc, inc]" and r = boom
      and s = emptyMemory and after = "[inc]", OF p a b] p b s
  show ?thesis by (simp add: inc_def)
qed

section \<open>The drift checker\<close>

lemma eventsSince_append:
  "trace s' = trace s @ tr \<Longrightarrow> eventsSince s s' = tr"
  by (simp add: eventsSince_def)

lemma queryAndClassify_query_failed:
  assumes "PlanSummary d (PlanSummaryRequest (Repo d) ''master'' ''Github'' dir workspace) (world s)
             = (Inl e, w)"
  shows "queryAndClassify d dir workspace s =
           (if isTemporary e then None
            else Some (Wrapf (''failed to get plan summary for ('' @ dir @ ''#'' @ workspace @ '')'') e),
            s\<lparr>world := w,
              trace := trace s @ [Call (CallPlanSummary (PlanSummaryRequest (Repo d) ''master'' ''Github'' dir workspace)) (Some e)]\<rparr>)"
  using assms by (simp add: queryAndClassify_def invokeR_def Let_def)

lemma queryAndClassify_query_ok:
  assumes "PlanSummary d (PlanSummaryRequest (Repo d) ''master'' ''Github'' dir workspace) (world s)
             = (Inr pr, w)"
  shows "\<exists>tr. trace (snd (queryAndClassify d dir workspace s)) =
           trace s @ Call (CallPlanSummary (PlanSummaryRequest (Repo d) ''master'' ''Github'' dir workspace)) None # tr
         \<and> filter isPlanQuery tr = []"
proof -
  obtain r w2 where st: "StoreDriftCheckResult (ResultCache d) (ConsiderDriftChecked dir workspace)
      (DriftCheckValue (Now d w) [] (HasChanges pr)) w = (r, w2)"
    by (cases "StoreDriftCheckResult (ResultCache d) (ConsiderDriftChecked dir workspace)
      (DriftCheckValue (Now d w) [] (HasChanges pr)) w")
  obtain r' w3 where pd: "PlanDrift (Notification d) dir workspace (GetPlanResultSummary pr) w2 = (r', w3)"
    by (cases "PlanDrift (Notification d) dir workspace (GetPlanResultSummary pr) w2")
  show ?thesis
    using assms st pd
    by (cases r; cases r'; cases "IsLocked pr"; cases "HasChanges pr")
       (simp_all add: queryAndClassify_def invokeR_def invoke_def Let_def)
qed

lemma queryAndClassify_events:
  "\<exists>q tr. trace (snd (queryAndClassify d dir workspace s)) =
     trace s @ Call (CallPlanSummary (PlanSummaryRequest (Repo d) ''master'' ''Github'' dir workspace)) q # tr
     \<and> filter isPlanQuery tr = []"
proof -
  let ?req = "PlanSummaryRequest (Repo d) ''master'' ''Github'' dir workspace"
  obtain res w where q: "PlanSummary d ?req (world s) = (res, w)"
    by (cases "PlanSummary d ?req (world s)")
  show ?thesis
  proof (cases res)
    case (Inl e)
    from queryAndClassify_query_failed [OF q [unfolded Inl]] show ?thesis by simp
  next
    case (Inr pr)
    from queryAndClassify_query_ok [OF q [unfolded Inr]] show ?thesis by blast
  qed
qed

lemma queryAndClassify_temporary:
  assumes "trace (snd (queryAndClassify d dir workspace s)) = trace s @ tr"
    and "Call (CallPlanSummary req) (Some err) \<in> set tr"
    and "isTemporary err"
  shows "fst (queryAndClassify d dir workspace s) = None
       \<and> DriftedWorkspaceCount (snd (queryAndClassify d dir workspace s)) = DriftedWorkspaceCount s
       \<and> filter isStore tr = [] \<and> filter isNotification tr = []"
proof -
  let ?req = "PlanSummaryRequest (Repo d) ''master'' ''Github'' dir workspace"
  obtain res w where q: "PlanSummary d ?req (world s) = (res, w)"
    by (cases "PlanSummary d ?req (world s)")
  show ?thesis
  proof (cases res)
    case (Inl e)
    note f = queryAndClassify_query_failed [OF q [unfolded Inl]]
    from f assms(1) have tr: "tr = [Call (CallPlanSummary ?req) (Some e)]" by simp
    with assms(2) have "e = err" by simp
    with f tr assms(3) show ?thesis by simp
  next
    case (Inr pr)
    from queryAndClassify_query_ok [OF q [unfolded Inr]] assms(1)
    obtain tr' where "tr = Call (CallPlanSummary ?req) None # tr'" and "filter isPlanQuery tr' = []"
      by auto
    with assms(2) have "Call (CallPlanSummary req) (Some err) \<in> set tr'" by simp
    then have "Call (CallPlanSummary req) (Some err) \<in> set (filter isPlanQuery tr')" by simp
    with \<open>filter isPlanQuery tr' = []\<close> show ?thesis by simp
  qed
qed

lemma queryAndClassify_extends:
  "\<exists>tr. trace (snd (queryAndClassify d dir workspace s)) = trace s @ tr"
proof -
  let ?req = "PlanSummaryRequest (Repo d) ''master'' ''Github'' dir workspace"
  obtain res w where q: "PlanSummary d ?req (world s) = (res, w)"
    by (cases "PlanSummary d ?req (world s)")
  show ?thesis
  proof (cases res)
    case (Inl e)
    from queryAndClassify_query_failed [OF q [unfolded Inl]] show ?thesis by simp
  next
    case (Inr pr)
    from queryAndClassify_query_ok [OF q [unfolded Inr]] show ?thesis by blast
  qed
qed

lemma checkWorkspace_gate:
  obtains (query) s2 g where
      "checkWorkspace d dir workspace s = queryAndClassify d dir workspace s2"
      "trace s2 = trace s @ g" "DriftedWorkspaceCount s2 = DriftedWorkspaceCount s"
      "filter isPlanQuery g = []" "filter isStore g = []" "filter isNotification g = []"
  | (stop) r w g where
      "checkWorkspace d dir workspace s = (r, s\<lparr>world := w, trace := trace s @ g\<rparr>)"
      "filter isPlanQuery g = []"
proof -
  let ?key = "ConsiderDriftChecked dir workspace"
  obtain res w1 where get: "GetDriftCheckResult (ResultCache d) ?key (world s) = (res, w1)"
    by (cases "GetDriftCheckResult (ResultCache d) ?key (world s)")
  show thesis
  proof (cases res)
    case (Inl e)
    with get show thesis
      by (intro stop [where w = w1 and g = "[Call (CallGetDriftCheckResult ?key) (Some e)]"])
         (simp_all add: checkWorkspace_def invokeR_def Let_def)
  next
    case (Inr cached)
    show thesis
    proof (cases cached)
      case None
      with get Inr show thesis
        by (intro query [where ?s2.0 = "s\<lparr>world := w1, trace := trace s @ [Call (CallGetDriftCheckResult ?key) None]\<rparr>"
                            and g = "[Call (CallGetDriftCheckResult ?key) None]"])
           (simp_all add: checkWorkspace_def invokeR_def Let_def)
    next
      case (Some cacheVal)
      show thesis
      proof (cases "Since (Now d w1) (When cacheVal) < CacheValidDuration d")
        case True
        with get Inr Some show thesis
          by (intro stop [where r = None and w = w1 and g = "[Call (CallGetDriftCheckResult ?key) None]"])
             (simp_all add: checkWorkspace_def invokeR_def Let_def)
      next
        case False
        obtain r w2 where del: "DeleteDriftCheckResult (ResultCache d) ?key w1 = (r, w2)"
          by (cases "DeleteDriftCheckResult (ResultCache d) ?key w1")
        show thesis
        proof (cases r)
          case None
          with get Inr Some False del show thesis
            by (intro query [where ?s2.0 = "s\<lparr>world := w2, trace := trace s @ [Call (CallGetDriftCheckResult ?key) None,
                                     Call (CallDeleteDriftCheckResult ?key) None]\<rparr>"
                                and g = "[Call (CallGetDriftCheckResult ?key) None,
                                  Call (CallDeleteDriftCheckResult ?key) None]"])
               (simp_all add: checkWorkspace_def invokeR_def invoke_def Let_def)
        next
          case (Some e)
          with get Inr \<open>cached = Some cacheVal\<close> False del show thesis
            by (intro stop [where w = w2 and g = "[Call (CallGetDriftCheckResult ?key) None,
                                      Call (CallDeleteDriftCheckResult ?key) (Some e)]"])
               (simp_all add: checkWorkspace_def invokeR_def invoke_def Let_def)
        qed
      qed
    qed
  qed
qed

text \<open>
  C3. When the cache holds a record for the pair, the check is skipped (the lookup is the
  only call made, and the loop goes on to the next workspace) if and only if the age of the
  record is less than the validity duration. When the age is at least that duration, the
  record is deleted right after the lookup; when the deletion succeeds the plan query comes
  next and is the only plan query of the check, and when it fails the check returns that
  error and no plan query is made.
\<close>

theorem checkWorkspace_cached_record:
  assumes "GetDriftCheckResult (ResultCache d) (ConsiderDriftChecked dir workspace) (world s)
             = (Inr (Some cacheVal), w1)"
  shows "(Since (Now d w1) (When cacheVal) < CacheValidDuration d \<longleftrightarrow>
            checkWorkspace d dir workspace s =
              (None, s\<lparr>world := w1,
                       trace := trace s @ [Call (CallGetDriftCheckResult (ConsiderDriftChecked dir workspace)) None]\<rparr>))
       \<and> (CacheValidDuration d \<le> Since (Now d w1) (When cacheVal) \<longrightarrow>
            (case DeleteDriftCheckResult (ResultCache d) (ConsiderDriftChecked dir workspace) w1 of
               (None, w2) \<Rightarrow>
                 (\<exists>q tr. eventsSince s (snd (checkWorkspace d dir workspace s)) =
                    [Call (CallGetDriftCheckResult (ConsiderDriftChecked dir workspace)) None,
                     Call (CallDeleteDriftCheckResult (ConsiderDriftChecked dir workspace)) None,
                     Call (CallPlanSummary (PlanSummaryRequest (Repo d) ''master'' ''Github'' dir workspace)) q]
                    @ tr
                  \<and> filter isPlanQuery tr = [])
             | (Some err, w2) \<Rightarrow>
                 checkWorkspace d dir workspace s =
                   (Some (Wrapf (''failed to delete cache value for '' @ dir @ ''/'' @ workspace) err),
                    s\<lparr>world := w2,
                      trace := trace s @
                        [Call (CallGetDriftCheckResult (ConsiderDriftChecked dir workspace)) None,
                         Call (CallDeleteDriftCheckResult (ConsiderDriftChecked dir workspace)) (Some err)]\<rparr>)))"
proof (intro conjI impI)
  let ?key = "ConsiderDriftChecked dir workspace"
  let ?req = "PlanSummaryRequest (Repo d) ''master'' ''Github'' dir workspace"
  obtain r w2 where del: "DeleteDriftCheckResult (ResultCache d) ?key w1 = (r, w2)"
    by (cases "DeleteDriftCheckResult (ResultCache d) ?key w1")
  let ?s2 = "s\<lparr>world := w2, trace := trace s @ [Call (CallGetDriftCheckResult ?key) None,
                Call (CallDeleteDriftCheckResult ?key) None]\<rparr>"
  have deleted: "checkWorkspace d dir workspace s = queryAndClassify d dir workspace ?s2"
    if "\<not> Since (Now d w1) (When cacheVal) < CacheValidDuration d" and "r = None"
    using assms del that by (simp add: checkWorkspace_def invokeR_def invoke_def Let_def)
  have failed: "checkWorkspace d dir workspace s =
      (Some (Wrapf (''failed to delete cache value for '' @ dir @ ''/'' @ workspace) err),
       s\<lparr>world := w2, trace := trace s @ [Call (CallGetDriftCheckResult ?key) None,
            Call (CallDeleteDriftCheckResult ?key) (Some err)]\<rparr>)"
    if "\<not> Since (Now d w1) (When cacheVal) < CacheValidDuration d" and "r = Some err" for err
    using assms del that by (simp add: checkWorkspace_def invokeR_def invoke_def Let_def)
  obtain q tr where tr: "trace (snd (queryAndClassify d dir workspace ?s2)) =
      trace ?s2 @ Call (CallPlanSummary ?req) q # tr" and none: "filter isPlanQuery tr = []"
    using queryAndClassify_events [of d dir workspace ?s2] by blast
  show "Since (Now d w1) (When cacheVal) < CacheValidDuration d \<longleftrightarrow>
          checkWorkspace d dir workspace s =
            (None, s\<lparr>world := w1, trace := trace s @ [Call (CallGetDriftCheckResult ?key) None]\<rparr>)"
  proof
    assume "Since (Now d w1) (When cacheVal) < CacheValidDuration d"
    with assms show "checkWorkspace d dir workspace s =
            (None, s\<lparr>world := w1, trace := trace s @ [Call (CallGetDriftCheckResult ?key) None]\<rparr>)"
      by (simp add: checkWorkspace_def invokeR_def Let_def)
  next
    assume skip: "checkWorkspace d dir workspace s =
            (None, s\<lparr>world := w1, trace := trace s @ [Call (CallGetDriftCheckResult ?key) None]\<rparr>)"
    show "Since (Now d w1) (When cacheVal) < CacheValidDuration d"
    proof (rule ccontr)
      assume stale: "\<not> Since (Now d w1) (When cacheVal) < CacheValidDuration d"
      have "length (trace (snd (checkWorkspace d dir workspace s))) > Suc (length (trace s))"
      proof (cases r)
        case None
        with deleted [OF stale] tr show ?thesis by simp
      next
        case (Some e)
        with failed [OF stale] show ?thesis by simp
      qed
      with skip show False by simp
    qed
  qed
  assume "CacheValidDuration d \<le> Since (Now d w1) (When cacheVal)"
  then have stale: "\<not> Since (Now d w1) (When cacheVal) < CacheValidDuration d" by simp
  show "case DeleteDriftCheckResult (ResultCache d) ?key w1 of
          (None, w2) \<Rightarrow>
            (\<exists>q tr. eventsSince s (snd (checkWorkspace d dir workspace s)) =
               [Call (CallGetDriftCheckResult ?key) None, Call (CallDeleteDriftCheckResult ?key) None,
                Call (CallPlanSummary ?req) q] @ tr
             \<and> filter isPlanQuery tr = [])
        | (Some err, w2) \<Rightarrow>
            checkWorkspace d dir workspace s =
              (Some (Wrapf (''failed to delete cache value for '' @ dir @ ''/'' @ workspace) err),
               s\<lparr>world := w2, trace := trace s @ [Call (CallGetDriftCheckResult ?key) None,
                    Call (CallDeleteDriftCheckResult ?key) (Some err)]\<rparr>)"
  proof (cases r)
    case None
    from deleted [OF stale None] tr
    have "eventsSince s (snd (checkWorkspace d dir workspace s)) =
        [Call (CallGetDriftCheckResult ?key) None, Call (CallDeleteDriftCheckResult ?key) None,
         Call (CallPlanSummary ?req) q] @ tr"
      by (simp add: eventsSince_def)
    with none del None show ?thesis by auto
  next
    case (Some e)
    with failed [OF stale Some] del show ?thesis by simp
  qed
qed

theorem checkWorkspace_cached_record_witness:
  "GetDriftCheckResult (ResultCache exampleDrifter) (ConsiderDriftChecked ''infra/db'' ''prod'')
      (world (cachedAt 0)) = (Inr (Some (DriftCheckValue 0 [] False)), world (cachedAt 0))
   \<and> CacheValidDuration exampleDrifter
        \<le> Since (Now exampleDrifter (world (cachedAt 0))) (When (DriftCheckValue 0 [] False))
   \<and> (\<exists>q tr. eventsSince (cachedAt 0)
                 (snd (checkWorkspace exampleDrifter ''infra/db'' ''prod'' (cachedAt 0))) =
          [Call (CallGetDriftCheckResult (ConsiderDriftChecked ''infra/db'' ''prod'')) None,
           Call (CallDeleteDriftCheckResult (ConsiderDriftChecked ''infra/db'' ''prod'')) None,
           Call (CallPlanSummary
                  (PlanSummaryRequest (Repo exampleDrifter) ''master'' ''Github'' ''infra/db'' ''prod'')) q]
          @ tr
        \<and> filter isPlanQuery tr = [])
   \<and> GetDriftCheckResult (ResultCache exampleDrifter) (ConsiderDriftChecked ''infra/db'' ''prod'')
        (world (cachedAt 9000)) = (Inr (Some (DriftCheckValue 9000 [] False)), world (cachedAt 9000))
   \<and> Since (Now exampleDrifter (world (cachedAt 9000))) (When (DriftCheckValue 9000 [] False))
        < CacheValidDuration exampleDrifter
   \<and> checkWorkspace exampleDrifter ''infra/db'' ''prod'' (cachedAt 9000) =
        (None, (cachedAt 9000)\<lparr>world := world (cachedAt 9000),
           trace := trace (cachedAt 9000)
             @ [Call (CallGetDriftCheckResult (ConsiderDriftChecked ''infra/db'' ''prod'')) None]\<rparr>)"
proof -
  let ?key = "ConsiderDriftChecked ''infra/db'' ''prod''"
  have g0: "GetDriftCheckResult (ResultCache exampleDrifter) ?key (world (cachedAt 0))
      = (Inr (Some (DriftCheckValue 0 [] False)), world (cachedAt 0))"
    by (simp add: example_defs)
  have stale: "CacheValidDuration exampleDrifter
        \<le> Since (Now exampleDrifter (world (cachedAt 0))) (When (DriftCheckValue 0 [] False))"
    by (simp add: example_defs Since_def minDuration_def maxDuration_def)
  have del: "DeleteDriftCheckResult (ResultCache exampleDrifter) ?key (world (cachedAt 0))
      = (None, (world (cachedAt 0))\<lparr>driftChecked := (driftChecked (world (cachedAt 0)))(?key := None)\<rparr>)"
    by (simp add: example_defs)
  have g1: "GetDriftCheckResult (ResultCache exampleDrifter) ?key (world (cachedAt 9000))
      = (Inr (Some (DriftCheckValue 9000 [] False)), world (cachedAt 9000))"
    by (simp add: example_defs)
  have fresh: "Since (Now exampleDrifter (world (cachedAt 9000))) (When (DriftCheckValue 9000 [] False))
        < CacheValidDuration exampleDrifter"
    by (simp add: example_defs Since_def minDuration_def maxDuration_def)
  from checkWorkspace_cached_record [OF g0] stale del
  have c0: "\<exists>q tr. eventsSince (cachedAt 0)
                 (snd (checkWorkspace exampleDrifter ''infra/db'' ''prod'' (cachedAt 0))) =
          [Call (CallGetDriftCheckResult ?key) None, Call (CallDeleteDriftCheckResult ?key) None,
           Call (CallPlanSummary
                  (PlanSummaryRequest (Repo exampleDrifter) ''master'' ''Github'' ''infra/db'' ''prod'')) q]
          @ tr
        \<and> filter isPlanQuery tr = []"
    by simp
  from checkWorkspace_cached_record [OF g1] fresh
  have c1: "checkWorkspace exampleDrifter ''infra/db'' ''prod'' (cachedAt 9000) =
        (None, (cachedAt 9000)\<lparr>world := world (cachedAt 9000),
           trace := trace (cachedAt 9000) @ [Call (CallGetDriftCheckResult ?key) None]\<rparr>)"
    by simp
  from g0 stale c0 g1 fresh c1 show ?thesis by blast
qed

text \<open>
  C4. When the plan query of a pair returns an error that is temporary, the check of that
  pair returns nil, leaves the counter as it was, stores no cache record and sends no
  notification, and the loop goes on with the remaining workspaces of the directory.
\<close>

theorem checkWorkspace_temporary_error:
  assumes "Call (CallPlanSummary req) (Some err)
             \<in> set (eventsSince s (snd (checkWorkspace d dir workspace s)))"
    and "isTemporary err"
  shows "fst (checkWorkspace d dir workspace s) = None
       \<and> DriftedWorkspaceCount (snd (checkWorkspace d dir workspace s)) = DriftedWorkspaceCount s
       \<and> filter isStore (eventsSince s (snd (checkWorkspace d dir workspace s))) = []
       \<and> filter isNotification (eventsSince s (snd (checkWorkspace d dir workspace s))) = []
       \<and> checkWorkspaces d dir (workspace # workspaces) s =
           checkWorkspaces d dir workspaces (snd (checkWorkspace d dir workspace s))"
proof -
  let ?ev = "Call (CallPlanSummary req) (Some err)"
  have body: "fst (checkWorkspace d dir workspace s) = None
       \<and> DriftedWorkspaceCount (snd (checkWorkspace d dir workspace s)) = DriftedWorkspaceCount s
       \<and> filter isStore (eventsSince s (snd (checkWorkspace d dir workspace s))) = []
       \<and> filter isNotification (eventsSince s (snd (checkWorkspace d dir workspace s))) = []"
  proof (cases rule: checkWorkspace_gate [of d dir workspace s])
    case (query s2 g)
    note eq = query(1) and g = query(2-6)
    obtain tr where tr: "trace (snd (queryAndClassify d dir workspace s2)) = trace s2 @ tr"
      using queryAndClassify_extends by blast
    with eq g have ev: "eventsSince s (snd (checkWorkspace d dir workspace s)) = g @ tr"
      by (simp add: eventsSince_def)
    have "?ev \<notin> set g"
    proof
      assume "?ev \<in> set g"
      then have "?ev \<in> set (filter isPlanQuery g)" by simp
      with g show False by simp
    qed
    with assms(1) ev have "?ev \<in> set tr" by simp
    from queryAndClassify_temporary [OF tr this assms(2)] eq g ev show ?thesis by simp
  next
    case (stop r w g)
    note eq = stop(1) and g = stop(2)
    from eq have "eventsSince s (snd (checkWorkspace d dir workspace s)) = g"
      by (simp add: eventsSince_def)
    with assms(1) have "?ev \<in> set (filter isPlanQuery g)" by simp
    with g show ?thesis by simp
  qed
  then have "checkWorkspace d dir workspace s = (None, snd (checkWorkspace d dir workspace s))"
    by (simp add: prod_eq_iff)
  then have "checkWorkspaces d dir (workspace # workspaces) s =
           checkWorkspaces d dir workspaces (snd (checkWorkspace d dir workspace s))"
    by (metis (no_types, lifting) checkWorkspaces.simps(2) case_prod_conv option.simps(4))
  with body show ?thesis by simp
qed

theorem checkWorkspace_temporary_error_witness:
  "Call (CallPlanSummary (PlanSummaryRequest ''org/infra'' ''master'' ''Github'' ''infra/db'' ''prod''))
        (Some (Wrapf ''plan request failed'' (TemporaryError ''timeout'' True)))
      \<in> set (eventsSince emptyMemory
                (snd (checkWorkspace temporaryDrifter ''infra/db'' ''prod'' emptyMemory)))
   \<and> isTemporary (Wrapf ''plan request failed'' (TemporaryError ''timeout'' True))
   \<and> fst (checkWorkspace temporaryDrifter ''infra/db'' ''prod'' emptyMemory) = None
   \<and> DriftedWorkspaceCount (snd (checkWorkspace temporaryDrifter ''infra/db'' ''prod'' emptyMemory))
        = DriftedWorkspaceCount emptyMemory
   \<and> filter isStore (eventsSince emptyMemory
        (snd (checkWorkspace temporaryDrifter ''infra/db'' ''prod'' emptyMemory))) = []
   \<and> filter isNotification (eventsSince emptyMemory
        (snd (checkWorkspace temporaryDrifter ''infra/db'' ''prod'' emptyMemory))) = []
   \<and> checkWorkspaces temporaryDrifter ''infra/db'' (''prod'' # [''staging'']) emptyMemory =
        checkWorkspaces temporaryDrifter ''infra/db'' [''staging'']
          (snd (checkWorkspace temporaryDrifter ''infra/db'' ''prod'' emptyMemory))"
proof -
  have h: "Call (CallPlanSummary (PlanSummaryRequest ''org/infra'' ''master'' ''Github'' ''infra/db'' ''prod''))
        (Some (Wrapf ''plan request failed'' (TemporaryError ''timeout'' True)))
      \<in> set (eventsSince emptyMemory
                (snd (checkWorkspace temporaryDrifter ''infra/db'' ''prod'' emptyMemory)))"
    by (simp add: engine_defs example_defs)
  have t: "isTemporary (Wrapf ''plan request failed'' (TemporaryError ''timeout'' True))"
    by simp
  from checkWorkspace_temporary_error [OF h t, of "[''staging'']"] h t show ?thesis by blast
qed

text \<open>
  C5. When the plan query returns a result that is locked and has changes, the checker
  stores the cache record with \<^verbatim>\<open>Drift\<close> true and the current time, and that store is its
  last call: no drift notification is sent and the counter is not incremented.
\<close>

theorem queryAndClassify_locked_with_changes:
  assumes "PlanSummary d (PlanSummaryRequest (Repo d) ''master'' ''Github'' dir workspace) (world s)
             = (Inr pr, w1)"
    and "IsLocked pr" and "HasChanges pr"
    and "StoreDriftCheckResult (ResultCache d) (ConsiderDriftChecked dir workspace)
           (DriftCheckValue (Now d w1) [] True) w1 = (r, w2)"
  shows "eventsSince s (snd (queryAndClassify d dir workspace s)) =
           [Call (CallPlanSummary (PlanSummaryRequest (Repo d) ''master'' ''Github'' dir workspace)) None,
            Call (CallStoreDriftCheckResult (ConsiderDriftChecked dir workspace)
                    (DriftCheckValue (Now d w1) [] True)) r]
       \<and> DriftedWorkspaceCount (snd (queryAndClassify d dir workspace s)) = DriftedWorkspaceCount s
       \<and> fst (queryAndClassify d dir workspace s) =
           map_option (Wrapf (''failed to store cache value for '' @ dir @ ''/'' @ workspace)) r"
  using assms
  by (simp add: queryAndClassify_def invoke_def invokeR_def Let_def eventsSince_def
           split: option.splits)

theorem queryAndClassify_locked_with_changes_witness:
  "PlanSummary lockedDrifter
      (PlanSummaryRequest (Repo lockedDrifter) ''master'' ''Github'' ''infra/db'' ''prod'')
      (world emptyMemory)
     = (Inr \<lparr>IsLocked = True, HasChanges = True, GetPlanResultSummary = ''Plan: 1 to add''\<rparr>,
        (world emptyMemory)\<lparr>clock := 10001\<rparr>)
   \<and> IsLocked \<lparr>IsLocked = True, HasChanges = True, GetPlanResultSummary = ''Plan: 1 to add''\<rparr>
   \<and> HasChanges \<lparr>IsLocked = True, HasChanges = True, GetPlanResultSummary = ''Plan: 1 to add''\<rparr>
   \<and> eventsSince emptyMemory (snd (queryAndClassify lockedDrifter ''infra/db'' ''prod'' emptyMemory)) =
        [Call (CallPlanSummary (PlanSummaryRequest ''org/infra'' ''master'' ''Github'' ''infra/db'' ''prod'')) None,
         Call (CallStoreDriftCheckResult (ConsiderDriftChecked ''infra/db'' ''prod'')
                 (DriftCheckValue 10001 [] True)) None]
   \<and> DriftedWorkspaceCount (snd (queryAndClassify lockedDrifter ''infra/db'' ''prod'' emptyMemory)) = 0
   \<and> fst (queryAndClassify lockedDrifter ''infra/db'' ''prod'' emptyMemory) = None"
proof -
  let ?pr = "\<lparr>IsLocked = True, HasChanges = True, GetPlanResultSummary = ''Plan: 1 to add''\<rparr>"
  let ?w1 = "(world emptyMemory)\<lparr>clock := 10001\<rparr>"
  let ?key = "ConsiderDriftChecked ''infra/db'' ''prod''"
  have q: "PlanSummary lockedDrifter
      (PlanSummaryRequest (Repo lockedDrifter) ''master'' ''Github'' ''infra/db'' ''prod'')
      (world emptyMemory) = (Inr ?pr, ?w1)"
    by (simp add: example_defs)
  have l: "IsLocked ?pr" and c: "HasChanges ?pr" by simp_all
  have st: "StoreDriftCheckResult (ResultCache lockedDrifter) ?key
      (DriftCheckValue (Now lockedDrifter ?w1) [] True) ?w1
     = (None, ?w1\<lparr>driftChecked := [?key \<mapsto> DriftCheckValue 10001 [] True]\<rparr>)"
    by (simp add: example_defs)
  have now: "Now lockedDrifter ?w1 = 10001" and repo: "Repo lockedDrifter = ''org/infra''"
    and zero: "DriftedWorkspaceCount emptyMemory = 0"
    by (simp_all add: example_defs)
  from queryAndClassify_locked_with_changes [OF q l c st] q l c now repo zero
  show ?thesis by simp
qed

text \<open>
  C10. When the plan query returns a result that has changes and is not locked, and the
  cache record is stored, the counter is incremented and then the drift notification is
  called; the counter is one more than before whatever the notification returns, and an
  error of the notification is returned by the check.
\<close>

theorem queryAndClassify_counts_before_notifying:
  assumes "PlanSummary d (PlanSummaryRequest (Repo d) ''master'' ''Github'' dir workspace) (world s)
             = (Inr pr, w1)"
    and "\<not> IsLocked pr" and "HasChanges pr"
    and "StoreDriftCheckResult (ResultCache d) (ConsiderDriftChecked dir workspace)
           (DriftCheckValue (Now d w1) [] True) w1 = (None, w2)"
    and "PlanDrift (Notification d) dir workspace (GetPlanResultSummary pr) w2 = (r, w3)"
  shows "eventsSince s (snd (queryAndClassify d dir workspace s)) =
           [Call (CallPlanSummary (PlanSummaryRequest (Repo d) ''master'' ''Github'' dir workspace)) None,
            Call (CallStoreDriftCheckResult (ConsiderDriftChecked dir workspace)
                    (DriftCheckValue (Now d w1) [] True)) None,
            AtomicAddInt32,
            Call (CallPlanDrift dir workspace (GetPlanResultSummary pr)) r]
       \<and> DriftedWorkspaceCount (snd (queryAndClassify d dir workspace s)) = DriftedWorkspaceCount s + 1
       \<and> fst (queryAndClassify d dir workspace s) =
           map_option (Wrapf (''failed to notify of plan drift in '' @ dir)) r"
  using assms
  by (simp add: queryAndClassify_def invoke_def invokeR_def Let_def eventsSince_def
           split: option.splits)

theorem queryAndClassify_counts_before_notifying_witness:
  "PlanSummary sinkDownDrifter
      (PlanSummaryRequest (Repo sinkDownDrifter) ''master'' ''Github'' ''infra/db'' ''prod'')
      (world emptyMemory)
     = (Inr \<lparr>IsLocked = False, HasChanges = True, GetPlanResultSummary = ''Plan: 1 to add''\<rparr>,
        (world emptyMemory)\<lparr>clock := 10001\<rparr>)
   \<and> \<not> IsLocked \<lparr>IsLocked = False, HasChanges = True, GetPlanResultSummary = ''Plan: 1 to add''\<rparr>
   \<and> HasChanges \<lparr>IsLocked = False, HasChanges = True, GetPlanResultSummary = ''Plan: 1 to add''\<rparr>
   \<and> eventsSince emptyMemory (snd (queryAndClassify sinkDownDrifter ''infra/db'' ''prod'' emptyMemory)) =
        [Call (CallPlanSummary (PlanSummaryRequest ''org/infra'' ''master'' ''Github'' ''infra/db'' ''prod'')) None,
         Call (CallStoreDriftCheckResult (ConsiderDriftChecked ''infra/db'' ''prod'')
                 (DriftCheckValue 10001 [] True)) None,
         AtomicAddInt32,
         Call (CallPlanDrift ''infra/db'' ''prod'' ''Plan: 1 to add'') (Some (ErrorString ''webhook down''))]
   \<and> DriftedWorkspaceCount (snd (queryAndClassify sinkDownDrifter ''infra/db'' ''prod'' emptyMemory)) = 1
   \<and> fst (queryAndClassify sinkDownDrifter ''infra/db'' ''prod'' emptyMemory) =
        Some (Wrapf ''failed to notify of plan drift in infra/db'' (ErrorString ''webhook down''))"
proof -
  let ?pr = "\<lparr>IsLocked = False, HasChanges = True, GetPlanResultSummary = ''Plan: 1 to add''\<rparr>"
  let ?w1 = "(world emptyMemory)\<lparr>clock := 10001\<rparr>"
  let ?key = "ConsiderDriftChecked ''infra/db'' ''prod''"
  let ?w2 = "?w1\<lparr>driftChecked := [?key \<mapsto> DriftCheckValue 10001 [] True]\<rparr>"
  have q: "PlanSummary sinkDownDrifter
      (PlanSummaryRequest (Repo sinkDownDrifter) ''master'' ''Github'' ''infra/db'' ''prod'')
      (world emptyMemory) = (Inr ?pr, ?w1)"
    by (simp add: example_defs)
  have l: "\<not> IsLocked ?pr" and c: "HasChanges ?pr" by simp_all
  have st: "StoreDriftCheckResult (ResultCache sinkDownDrifter) ?key
      (DriftCheckValue (Now sinkDownDrifter ?w1) [] True) ?w1 = (None, ?w2)"
    by (simp add: example_defs)
  have n: "PlanDrift (Notification sinkDownDrifter) ''infra/db'' ''prod'' (GetPlanResultSummary ?pr) ?w2
     = (Some (ErrorString ''webhook down''), ?w2)"
    by (simp add: example_defs)
  have now: "Now sinkDownDrifter ?w1 = 10001" and repo: "Repo sinkDownDrifter = ''org/infra''"
    and zero: "DriftedWorkspaceCount emptyMemory = 0"
    by (simp_all add: example_defs)
  from queryAndClassify_counts_before_notifying [OF q l c st n] q l c now repo zero
  show ?thesis by simp
qed

section \<open>The workspace reconciler\<close>

lemma contains_iff: "contains workspaces w \<longleftrightarrow> w \<in> set workspaces"
  by (induction workspaces) auto

lemma notified_Cons: "notified dir (w # names) = Call (CallExtraWorkspaceInRemote dir w) None # notified dir names"
  by (simp add: notified_def)

lemma extraWorkspaceNotifications_append:
  "extraWorkspaceNotifications (xs @ ys) = extraWorkspaceNotifications xs @ extraWorkspaceNotifications ys"
  by (induction xs rule: extraWorkspaceNotifications.induct) simp_all

lemma extraWorkspaceNotifications_notified:
  "extraWorkspaceNotifications (notified dir names) = map (\<lambda>w. (dir, w)) names"
  by (induction names) (simp_all add: notified_def)

lemma notifyExtraWorkspaces_events:
  "(fst (notifyExtraWorkspaces d dir expected remote s) = None
      \<and> trace (snd (notifyExtraWorkspaces d dir expected remote s)) =
          trace s @ notified dir (filter (\<lambda>w. \<not> contains expected w) remote))
   \<or> (\<exists>names w e. fst (notifyExtraWorkspaces d dir expected remote s) =
            Some (Wrapf (''failed to notify of extra workspace '' @ w @ '' in '' @ dir) e)
      \<and> trace (snd (notifyExtraWorkspaces d dir expected remote s)) =
          trace s @ notified dir names @ [Call (CallExtraWorkspaceInRemote dir w) (Some e)])"
proof (induction remote arbitrary: s)
  case Nil
  show ?case by (simp add: notified_def)
next
  case (Cons w remote)
  show ?case
  proof (cases "contains expected w")
    case True
    with Cons.IH [of s] show ?thesis by simp
  next
    case False
    obtain r w' where n: "ExtraWorkspaceInRemote (Notification d) dir w (world s) = (r, w')"
      by (cases "ExtraWorkspaceInRemote (Notification d) dir w (world s)")
    show ?thesis
    proof (cases r)
      case None
      let ?s' = "s\<lparr>world := w', trace := trace s @ [Call (CallExtraWorkspaceInRemote dir w) None]\<rparr>"
      from False n None
      have eq: "notifyExtraWorkspaces d dir expected (w # remote) s =
                notifyExtraWorkspaces d dir expected remote ?s'"
        by (simp add: invoke_def)
      from Cons.IH [of ?s'] show ?thesis
      proof (elim disjE exE conjE)
        assume "fst (notifyExtraWorkspaces d dir expected remote ?s') = None"
          and "trace (snd (notifyExtraWorkspaces d dir expected remote ?s')) =
                 trace ?s' @ notified dir (filter (\<lambda>w. \<not> contains expected w) remote)"
        with eq False show ?thesis by (simp add: notified_Cons)
      next
        fix names v e
        assume "fst (notifyExtraWorkspaces d dir expected remote ?s') =
            Some (Wrapf (''failed to notify of extra workspace '' @ v @ '' in '' @ dir) e)"
          and "trace (snd (notifyExtraWorkspaces d dir expected remote ?s')) =
                 trace ?s' @ notified dir names @ [Call (CallExtraWorkspaceInRemote dir v) (Some e)]"
        with eq have "fst (notifyExtraWorkspaces d dir expected (w # remote) s) =
            Some (Wrapf (''failed to notify of extra workspace '' @ v @ '' in '' @ dir) e)
          \<and> trace (snd (notifyExtraWorkspaces d dir expected (w # remote) s)) =
              trace s @ notified dir (w # names) @ [Call (CallExtraWorkspaceInRemote dir v) (Some e)]"
          by (simp add: notified_Cons)
        then show ?thesis by blast
      qed
    next
      case (Some e)
      with False n have "fst (notifyExtraWorkspaces d dir expected (w # remote) s) =
            Some (Wrapf (''failed to notify of extra workspace '' @ w @ '' in '' @ dir) e)
          \<and> trace (snd (notifyExtraWorkspaces d dir expected (w # remote) s)) =
              trace s @ notified dir [] @ [Call (CallExtraWorkspaceInRemote dir w) (Some e)]"
        by (simp add: invoke_def notified_def)
      then show ?thesis by blast
    qed
  qed
qed

lemma notifyExtraWorkspaces_count:
  "DriftedWorkspaceCount (snd (notifyExtraWorkspaces d dir expected remote s)) = DriftedWorkspaceCount s"
  by (induction remote arbitrary: s) (simp_all add: invoke_def split: prod.splits option.splits)

text \<open>The shapes of the log of \<open>listAndReport\<close>.\<close>

lemma listAndReport_events:
  obtains (init) e w1 where
      "Init (Terraform d) dir (world s) = (Some e, w1)"
      "eventsSince s (snd (listAndReport d ws dir s)) = [Call (CallInit dir) (Some e)]"
  | (list) e w1 w2 where
      "Init (Terraform d) dir (world s) = (None, w1)"
      "ListWorkspaces (Terraform d) dir w1 = (Inl e, w2)"
      "eventsSince s (snd (listAndReport d ws dir s)) =
         [Call (CallInit dir) None, Call (CallListWorkspaces dir) (Some e)]"
  | (notify) names w e where
      "eventsSince s (snd (listAndReport d ws dir s)) =
         [Call (CallInit dir) None, Call (CallListWorkspaces dir) None] @ notified dir names
         @ [Call (CallExtraWorkspaceInRemote dir w) (Some e)]"
  | (store) w1 remote w2 v r where
      "Init (Terraform d) dir (world s) = (None, w1)"
      "ListWorkspaces (Terraform d) dir w1 = (Inr remote, w2)"
      "Workspaces v = remote"
      "eventsSince s (snd (listAndReport d ws dir s)) =
         [Call (CallInit dir) None, Call (CallListWorkspaces dir) None]
         @ notified dir (filter (\<lambda>w. \<not> contains (index ws dir @ [''default'']) w) remote)
         @ [Call (CallStoreRemoteWorkspaces (ConsiderWorkspacesChecked dir) v) r]"
proof -
  obtain r1 w1 where i: "Init (Terraform d) dir (world s) = (r1, w1)"
    by (cases "Init (Terraform d) dir (world s)")
  show thesis
  proof (cases r1)
    case (Some e)
    with i show thesis
      by (intro init [of e w1]) (simp_all add: listAndReport_def invoke_def Let_def eventsSince_def)
  next
    case None
    note r1 = None
    obtain r2 w2 where l: "ListWorkspaces (Terraform d) dir w1 = (r2, w2)"
      by (cases "ListWorkspaces (Terraform d) dir w1")
    show thesis
    proof (cases r2)
      case (Inl e)
      with i r1 l show thesis
        by (intro list [of w1 e w2])
           (simp_all add: listAndReport_def invoke_def invokeR_def Let_def eventsSince_def)
    next
      case (Inr remote)
      let ?s2 = "s\<lparr>world := w2, trace := trace s @ [Call (CallInit dir) None, Call (CallListWorkspaces dir) None]\<rparr>"
      let ?expected = "index ws dir @ [''default'']"
      obtain rn s3 where n: "notifyExtraWorkspaces d dir ?expected remote ?s2 = (rn, s3)"
        by (cases "notifyExtraWorkspaces d dir ?expected remote ?s2")
      from notifyExtraWorkspaces_events [of d dir ?expected remote ?s2, unfolded n] show thesis
      proof (elim disjE exE conjE)
        assume ok: "fst (rn, s3) = None"
          and tr: "trace (snd (rn, s3)) = trace ?s2 @ notified dir (filter (\<lambda>w. \<not> contains ?expected w) remote)"
        let ?v = "WorkspacesCheckedValue remote (Now d (world s3))"
        obtain r3 w3 where st: "StoreRemoteWorkspaces (ResultCache d) (ConsiderWorkspacesChecked dir) ?v (world s3) = (r3, w3)"
          by (cases "StoreRemoteWorkspaces (ResultCache d) (ConsiderWorkspacesChecked dir) ?v (world s3)")
        have "eventsSince s (snd (listAndReport d ws dir s)) =
           [Call (CallInit dir) None, Call (CallListWorkspaces dir) None]
           @ notified dir (filter (\<lambda>w. \<not> contains ?expected w) remote)
           @ [Call (CallStoreRemoteWorkspaces (ConsiderWorkspacesChecked dir) ?v) r3]"
          using i r1 l Inr n ok tr st
          by (cases r3)
             (simp_all add: listAndReport_def invoke_def invokeR_def Let_def eventsSince_def)
        with i r1 l Inr show thesis
          by (intro store [of w1 remote w2 ?v r3]) simp_all
      next
        fix names w e
        assume bad: "fst (rn, s3) = Some (Wrapf (''failed to notify of extra workspace '' @ w @ '' in '' @ dir) e)"
          and tr: "trace (snd (rn, s3)) = trace ?s2 @ notified dir names @ [Call (CallExtraWorkspaceInRemote dir w) (Some e)]"
        have "eventsSince s (snd (listAndReport d ws dir s)) =
           [Call (CallInit dir) None, Call (CallListWorkspaces dir) None] @ notified dir names
           @ [Call (CallExtraWorkspaceInRemote dir w) (Some e)]"
          using i r1 l Inr n bad tr
          by (simp add: listAndReport_def invoke_def invokeR_def Let_def eventsSince_def)
        then show thesis by (rule notify)
      qed
    qed
  qed
qed

lemma expected_filter:
  "filter (\<lambda>w. \<not> contains (declared @ [''default'']) w) remote =
   filter (\<lambda>w. w \<notin> set declared \<and> w \<noteq> ''default'') remote"
  by (rule filter_cong) (auto simp: contains_iff)

lemma set_notified: "set (notified dir names) = (\<lambda>w. Call (CallExtraWorkspaceInRemote dir w) None) ` set names"
  by (simp add: notified_def)

lemma filter_store_notified: "filter isStoreRemoteWorkspaces (notified dir names) = []"
  by (induction names) (simp_all add: notified_def)

text \<open>
  C6. When the initialisation and the listing of a directory succeed and no extra-workspace
  notification fails, the extra-workspace notifications of the directory are, in the order
  of the listing, one for each listed workspace that is neither declared for the directory
  nor \<^verbatim>\<open>default\<close>.
\<close>

theorem listAndReport_extra_workspaces:
  assumes "Init (Terraform d) dir (world s) = (None, w1)"
    and "ListWorkspaces (Terraform d) dir w1 = (Inr remoteWorkspaces, w2)"
    and "\<forall>w err. Call (CallExtraWorkspaceInRemote dir w) (Some err)
                    \<notin> set (eventsSince s (snd (listAndReport d ws dir s)))"
  shows "extraWorkspaceNotifications (eventsSince s (snd (listAndReport d ws dir s))) =
           map (\<lambda>w. (dir, w))
             (filter (\<lambda>w. w \<notin> set (index ws dir) \<and> w \<noteq> ''default'') remoteWorkspaces)"
proof (cases rule: listAndReport_events [of d dir s ws])
  case (init e w1')
  with assms(1) show ?thesis by simp
next
  case (list e w1' w2')
  with assms(1,2) show ?thesis by simp
next
  case (notify names w e)
  then have "Call (CallExtraWorkspaceInRemote dir w) (Some e)
               \<in> set (eventsSince s (snd (listAndReport d ws dir s)))"
    by simp
  with assms(3) show ?thesis by blast
next
  case (store w1' remote w2' v r)
  with assms(1,2) have "remote = remoteWorkspaces" by simp
  with store(4) show ?thesis
    by (simp only: expected_filter)
       (simp add: extraWorkspaceNotifications_append extraWorkspaceNotifications_notified)
qed

theorem listAndReport_extra_workspaces_witness:
  "Init (Terraform appDrifter) ''app'' (world emptyMemory) = (None, world emptyMemory)
   \<and> ListWorkspaces (Terraform appDrifter) ''app'' (world emptyMemory)
       = (Inr [''a'', ''b'', ''c'', ''default''], world emptyMemory)
   \<and> (\<forall>w err. Call (CallExtraWorkspaceInRemote ''app'' w) (Some err)
         \<notin> set (eventsSince emptyMemory (snd (listAndReport appDrifter appDirectory ''app'' emptyMemory))))
   \<and> index appDirectory ''app'' = [''a'', ''b'']
   \<and> extraWorkspaceNotifications
        (eventsSince emptyMemory (snd (listAndReport appDrifter appDirectory ''app'' emptyMemory)))
       = [(''app'', ''c'')]"
proof -
  have i: "Init (Terraform appDrifter) ''app'' (world emptyMemory) = (None, world emptyMemory)"
    by (simp add: example_defs)
  have l: "ListWorkspaces (Terraform appDrifter) ''app'' (world emptyMemory)
       = (Inr [''a'', ''b'', ''c'', ''default''], world emptyMemory)"
    by (simp add: example_defs)
  have ev: "eventsSince emptyMemory (snd (listAndReport appDrifter appDirectory ''app'' emptyMemory)) =
      [Call (CallInit ''app'') None, Call (CallListWorkspaces ''app'') None,
       Call (CallExtraWorkspaceInRemote ''app'' ''c'') None,
       Call (CallStoreRemoteWorkspaces (ConsiderWorkspacesChecked ''app'')
               (WorkspacesCheckedValue [''a'', ''b'', ''c'', ''default''] 10000)) None]"
    by (simp add: engine_defs example_defs)
  have ok: "\<forall>w err. Call (CallExtraWorkspaceInRemote ''app'' w) (Some err)
         \<notin> set (eventsSince emptyMemory (snd (listAndReport appDrifter appDirectory ''app'' emptyMemory)))"
    by (simp add: ev)
  have declared: "index appDirectory ''app'' = [''a'', ''b'']"
    by (simp add: appDirectory_def)
  from listAndReport_extra_workspaces [OF i l ok] declared
  have "extraWorkspaceNotifications
        (eventsSince emptyMemory (snd (listAndReport appDrifter appDirectory ''app'' emptyMemory)))
       = [(''app'', ''c'')]"
    by simp
  with i l ok declared show ?thesis by blast
qed

lemma runFunc_gate:
  obtains (report) s2 g where
      "runFunc d ws dir s = listAndReport d ws dir s2"
      "trace s2 = trace s @ g" "filter isReconcileStep g = []"
  | (stop) r w g where
      "runFunc d ws dir s = (r, s\<lparr>world := w, trace := trace s @ g\<rparr>)"
      "filter isReconcileStep g = []"
proof (cases "shouldSkipDirectory d dir")
  case True
  then show thesis
    by (intro stop [where r = None and w = "world s" and g = "[]"]) (simp_all add: runFunc_def)
next
  case False
  let ?key = "ConsiderWorkspacesChecked dir"
  obtain res w1 where get: "GetRemoteWorkspaces (ResultCache d) ?key (world s) = (res, w1)"
    by (cases "GetRemoteWorkspaces (ResultCache d) ?key (world s)")
  show thesis
  proof (cases res)
    case (Inl e)
    with False get show thesis
      by (intro stop [where w = w1 and g = "[Call (CallGetRemoteWorkspaces ?key) (Some e)]"])
         (simp_all add: runFunc_def invokeR_def Let_def)
  next
    case (Inr cached)
    show thesis
    proof (cases cached)
      case None
      with False get Inr show thesis
        by (intro report [where ?s2.0 = "s\<lparr>world := w1, trace := trace s @ [Call (CallGetRemoteWorkspaces ?key) None]\<rparr>"
                            and g = "[Call (CallGetRemoteWorkspaces ?key) None]"])
           (simp_all add: runFunc_def invokeR_def Let_def)
    next
      case (Some cacheVal)
      show thesis
      proof (cases "Since (Now d w1) (WorkspacesWhen cacheVal) < CacheValidDuration d")
        case True
        with \<open>\<not> shouldSkipDirectory d dir\<close> get Inr Some show thesis
          by (intro stop [where r = None and w = w1 and g = "[Call (CallGetRemoteWorkspaces ?key) None]"])
             (simp_all add: runFunc_def invokeR_def Let_def)
      next
        case stale: False
        obtain r w2 where del: "DeleteRemoteWorkspaces (ResultCache d) ?key w1 = (r, w2)"
          by (cases "DeleteRemoteWorkspaces (ResultCache d) ?key w1")
        show thesis
        proof (cases r)
          case None
          with \<open>\<not> shouldSkipDirectory d dir\<close> get Inr Some stale del show thesis
            by (intro report [where ?s2.0 = "s\<lparr>world := w2, trace := trace s @ [Call (CallGetRemoteWorkspaces ?key) None,
                                     Call (CallDeleteRemoteWorkspaces ?key) None]\<rparr>"
                                and g = "[Call (CallGetRemoteWorkspaces ?key) None,
                                  Call (CallDeleteRemoteWorkspaces ?key) None]"])
               (simp_all add: runFunc_def invokeR_def invoke_def Let_def)
        next
          case (Some e)
          with \<open>\<not> shouldSkipDirectory d dir\<close> get Inr \<open>cached = Some cacheVal\<close> stale del show thesis
            by (intro stop [where w = w2 and g = "[Call (CallGetRemoteWorkspaces ?key) None,
                                      Call (CallDeleteRemoteWorkspaces ?key) (Some e)]"])
               (simp_all add: runFunc_def invokeR_def invoke_def Let_def)
        qed
      qed
    qed
  qed
qed

lemma listAndReport_extends:
  "trace (snd (listAndReport d ws dir s)) = trace s @ eventsSince s (snd (listAndReport d ws dir s))"
proof -
  have ext: "\<And>expected remote s2. \<exists>tr. trace (snd (notifyExtraWorkspaces d dir expected remote s2)) = trace s2 @ tr"
    using notifyExtraWorkspaces_events by blast
  have "\<exists>tr. trace (snd (listAndReport d ws dir s)) = trace s @ tr"
  proof -
    obtain r1 w1 where i: "Init (Terraform d) dir (world s) = (r1, w1)"
      by (cases "Init (Terraform d) dir (world s)")
    obtain r2 w2 where l: "ListWorkspaces (Terraform d) dir w1 = (r2, w2)"
      by (cases "ListWorkspaces (Terraform d) dir w1")
    show ?thesis
    proof (cases r1)
      case (Some e)
      with i show ?thesis by (simp add: listAndReport_def invoke_def Let_def)
    next
      case None
      note r1 = None
      show ?thesis
      proof (cases r2)
        case (Inl e)
        with i r1 l show ?thesis by (simp add: listAndReport_def invoke_def invokeR_def Let_def)
      next
        case (Inr remote)
        let ?s2 = "s\<lparr>world := w2, trace := trace s @ [Call (CallInit dir) None, Call (CallListWorkspaces dir) None]\<rparr>"
        obtain rn s3 where n: "notifyExtraWorkspaces d dir (index ws dir @ [''default'']) remote ?s2 = (rn, s3)"
          by (cases "notifyExtraWorkspaces d dir (index ws dir @ [''default'']) remote ?s2")
        from ext [of "index ws dir @ [''default'']" remote ?s2] n
        obtain tr where tr: "trace s3 = trace ?s2 @ tr" by auto
        obtain r3 w3 where st: "StoreRemoteWorkspaces (ResultCache d) (ConsiderWorkspacesChecked dir)
            (WorkspacesCheckedValue remote (Now d (world s3))) (world s3) = (r3, w3)"
          by (cases "StoreRemoteWorkspaces (ResultCache d) (ConsiderWorkspacesChecked dir)
            (WorkspacesCheckedValue remote (Now d (world s3))) (world s3)")
        from i r1 l Inr n tr st show ?thesis
          by (cases rn; cases r3) (simp_all add: listAndReport_def invoke_def invokeR_def Let_def)
      qed
    qed
  qed
  then show ?thesis by (auto simp: eventsSince_def)
qed

text \<open>
  C9. When the initialisation, the listing or an extra-workspace notification of a
  directory returns an error, the work function of the directory stores no workspace-listing
  cache record.
\<close>

theorem runFunc_failure_stores_nothing:
  assumes "Call (CallInit dir) (Some err) \<in> set (eventsSince s (snd (runFunc d ws dir s)))
         \<or> Call (CallListWorkspaces dir) (Some err) \<in> set (eventsSince s (snd (runFunc d ws dir s)))
         \<or> Call (CallExtraWorkspaceInRemote dir w) (Some err) \<in> set (eventsSince s (snd (runFunc d ws dir s)))"
  shows "filter isStoreRemoteWorkspaces (eventsSince s (snd (runFunc d ws dir s))) = []"
proof -
  let ?bad = "\<lambda>tr. Call (CallInit dir) (Some err) \<in> set tr
         \<or> Call (CallListWorkspaces dir) (Some err) \<in> set tr
         \<or> Call (CallExtraWorkspaceInRemote dir w) (Some err) \<in> set tr"
  have gate: "\<not> ?bad g" if "filter isReconcileStep g = []" for g
  proof
    assume "?bad g"
    then obtain ev where "ev \<in> set g" "isReconcileStep ev" by auto
    then have "ev \<in> set (filter isReconcileStep g)" by simp
    with that show False by simp
  qed
  have gate_store: "filter isStoreRemoteWorkspaces g = []" if "filter isReconcileStep g = []" for g
  proof -
    have "\<not> isStoreRemoteWorkspaces ev" if "ev \<in> set g" for ev
    proof
      assume "isStoreRemoteWorkspaces ev"
      then have "isReconcileStep ev" by (cases ev rule: isStoreRemoteWorkspaces.cases) simp_all
      with \<open>ev \<in> set g\<close> have "ev \<in> set (filter isReconcileStep g)" by simp
      with \<open>filter isReconcileStep g = []\<close> show False by simp
    qed
    then show ?thesis by (simp add: filter_empty_conv)
  qed
  show ?thesis
  proof (cases rule: runFunc_gate [of d ws dir s])
    case (stop r w' g)
    then have "eventsSince s (snd (runFunc d ws dir s)) = g" by (simp add: eventsSince_def)
    with gate_store [OF stop(2)] show ?thesis by simp
  next
    case (report s2 g)
    let ?tr = "eventsSince s2 (snd (listAndReport d ws dir s2))"
    from listAndReport_extends [of d ws dir s2]
    obtain tr where tr: "trace (snd (listAndReport d ws dir s2)) = trace s2 @ tr" by metis
    then have "?tr = tr" by (simp add: eventsSince_def)
    with report tr have ev: "eventsSince s (snd (runFunc d ws dir s)) = g @ ?tr"
      by (simp add: eventsSince_def)
    with assms gate [OF report(3)] have bad: "?bad ?tr" by auto
    have "filter isStoreRemoteWorkspaces ?tr = []"
    proof (cases rule: listAndReport_events [of d dir s2 ws])
      case (init e w1)
      then show ?thesis by simp
    next
      case (list e w1 w2)
      then show ?thesis by simp
    next
      case (notify names v e)
      then show ?thesis by (simp add: filter_store_notified)
    next
      case (store w1 remote w2 v r)
      with bad show ?thesis by (auto simp: set_notified)
    qed
    with ev gate_store [OF report(3)] show ?thesis by simp
  qed
qed

theorem runFunc_failure_stores_nothing_witness:
  "Call (CallExtraWorkspaceInRemote ''app'' ''c'') (Some (ErrorString ''webhook down''))
     \<in> set (eventsSince emptyMemory (snd (runFunc appSinkDownDrifter appDirectory ''app'' emptyMemory)))
   \<and> filter isStoreRemoteWorkspaces
        (eventsSince emptyMemory (snd (runFunc appSinkDownDrifter appDirectory ''app'' emptyMemory))) = []"
proof -
  have h: "Call (CallExtraWorkspaceInRemote ''app'' ''c'') (Some (ErrorString ''webhook down''))
     \<in> set (eventsSince emptyMemory (snd (runFunc appSinkDownDrifter appDirectory ''app'' emptyMemory)))"
    by (simp add: engine_defs example_defs)
  from runFunc_failure_stores_nothing [OF disjI2 [OF disjI2 [OF h]]] h show ?thesis by blast
qed

section \<open>The run as a whole\<close>

lemma chain_self: "e \<in> set (chain e)"
  by (cases e) simp_all

lemma summaryNotifications_append:
  "summaryNotifications (xs @ ys) = summaryNotifications xs @ summaryNotifications ys"
  by (induction xs rule: summaryNotifications.induct) simp_all

lemma increments_append: "increments (xs @ ys) = increments xs + increments ys"
  by (simp add: increments_def)

lemma propagated_Nil: "propagated r []"
  by (simp add: propagated_def)

lemma propagated_append:
  "propagated None xs \<Longrightarrow> propagated r ys \<Longrightarrow> propagated r (xs @ ys)"
  by (auto simp: propagated_def)

lemma propagated_wrap: "propagated (Some e) tr \<Longrightarrow> propagated (Some (Wrapf m e)) tr"
  by (auto simp: propagated_def)

lemma accounted_refl: "accounted s r s"
  by (simp add: accounted_def increments_def propagated_def)

lemma accounted_seq:
  assumes "accounted s None s1" and "accounted s1 r s2"
  shows "accounted s r s2"
proof -
  from assms(1) obtain xs where xs: "trace s1 = trace s @ xs" "summaryNotifications xs = []"
      "DriftedWorkspaceCount s1 = DriftedWorkspaceCount s + of_nat (increments xs)" "propagated None xs"
    by (auto simp: accounted_def)
  from assms(2) obtain ys where ys: "trace s2 = trace s1 @ ys" "summaryNotifications ys = []"
      "DriftedWorkspaceCount s2 = DriftedWorkspaceCount s1 + of_nat (increments ys)" "propagated r ys"
    by (auto simp: accounted_def)
  have "trace s2 = trace s @ (xs @ ys)" using xs ys by simp
  moreover have "summaryNotifications (xs @ ys) = []"
    using xs ys by (simp add: summaryNotifications_append)
  moreover have "DriftedWorkspaceCount s2 = DriftedWorkspaceCount s + of_nat (increments (xs @ ys))"
    using xs ys by (simp add: increments_append)
  moreover have "propagated r (xs @ ys)" using xs ys by (simp add: propagated_append)
  ultimately show ?thesis unfolding accounted_def by blast
qed

lemma accounted_wrap: "accounted s (Some e) s' \<Longrightarrow> accounted s (Some (Wrapf m e)) s'"
  by (auto simp: accounted_def intro: propagated_wrap)

text \<open>One call that is no notification: the result of the step is free.\<close>

lemma accounted_call:
  assumes "trace s' = trace s @ [Call c r]" and "DriftedWorkspaceCount s' = DriftedWorkspaceCount s"
    and "\<not> isNotification (Call c r)"
  shows "accounted s r' s'"
proof -
  have "isNotification (Call c (Some e)) = isNotification (Call c r)" for e
    by (cases c) simp_all
  moreover have "summaryNotifications [Call c r] = []"
    using assms(3) by (cases c) simp_all
  ultimately show ?thesis
    using assms by (auto simp: accounted_def increments_def propagated_def)
qed

lemma accounted_invoke:
  assumes "\<not> isNotification (Call c None)"
  shows "accounted s r' (snd (invoke c f s))"
proof -
  obtain r w where f: "f (world s) = (r, w)" by (cases "f (world s)")
  have "isNotification (Call c r) = isNotification (Call c None)" by (cases c) simp_all
  with assms f show ?thesis
    by (intro accounted_call [where c = c and r = r]) (simp_all add: invoke_def)
qed

lemma accounted_invokeR:
  assumes "\<not> isNotification (Call c None)"
  shows "accounted s r' (snd (invokeR c f s))"
proof -
  obtain r w where f: "f (world s) = (r, w)" by (cases "f (world s)")
  let ?e = "case r of Inl e \<Rightarrow> Some e | Inr v \<Rightarrow> None"
  have "isNotification (Call c ?e) = isNotification (Call c None)" by (cases c) simp_all
  with assms f show ?thesis
    by (intro accounted_call [where c = c and r = ?e]) (simp_all add: invokeR_def)
qed

text \<open>A drift or extra-workspace notification whose error is returned, wrapped.\<close>

lemma accounted_notification:
  assumes "summaryNotifications [Call c None] = []"
  shows "accounted s (map_option (Wrapf m) (fst (invoke c f s))) (snd (invoke c f s))"
proof -
  obtain r w where f: "f (world s) = (r, w)" by (cases "f (world s)")
  have "summaryNotifications [Call c r] = []" using assms by (cases c) simp_all
  with f show ?thesis
    by (cases r) (auto simp: accounted_def invoke_def increments_def propagated_def chain_self)
qed

lemma accounted_queryAndClassify:
  "accounted s (fst (queryAndClassify d dir workspace s)) (snd (queryAndClassify d dir workspace s))"
proof -
  let ?req = "PlanSummaryRequest (Repo d) ''master'' ''Github'' dir workspace"
  let ?key = "ConsiderDriftChecked dir workspace"
  obtain res s1 where q: "invokeR (CallPlanSummary ?req) (PlanSummary d ?req) s = (res, s1)"
    by (cases "invokeR (CallPlanSummary ?req) (PlanSummary d ?req) s")
  have a1: "accounted s r' s1" for r'
    using accounted_invokeR [of "CallPlanSummary ?req" s r' "PlanSummary d ?req"] q by simp
  show ?thesis
  proof (cases res)
    case (Inl e)
    with q a1 show ?thesis by (simp add: queryAndClassify_def Let_def)
  next
    case (Inr pr)
    let ?v = "DriftCheckValue (Now d (world s1)) [] (HasChanges pr)"
    obtain r2 s2 where st: "invoke (CallStoreDriftCheckResult ?key ?v)
        (StoreDriftCheckResult (ResultCache d) ?key ?v) s1 = (r2, s2)"
      by (cases "invoke (CallStoreDriftCheckResult ?key ?v)
        (StoreDriftCheckResult (ResultCache d) ?key ?v) s1")
    have a2: "accounted s1 r' s2" for r'
      using accounted_invoke [of "CallStoreDriftCheckResult ?key ?v" s1 r'
          "StoreDriftCheckResult (ResultCache d) ?key ?v"] st by simp
    have a12: "accounted s r' s2" for r'
      using accounted_seq [OF a1 a2] .
    show ?thesis
    proof (cases r2)
      case (Some e)
      with q Inr st a12 show ?thesis by (simp add: queryAndClassify_def Let_def)
    next
      case None
      note r2 = None
      show ?thesis
      proof (cases "\<not> IsLocked pr \<and> HasChanges pr")
        case False
        with q Inr st r2 a12 show ?thesis by (auto simp: queryAndClassify_def Let_def)
      next
        case True
        let ?s3 = "s2\<lparr>DriftedWorkspaceCount := DriftedWorkspaceCount s2 + 1,
                       trace := trace s2 @ [AtomicAddInt32]\<rparr>"
        let ?n = "invoke (CallPlanDrift dir workspace (GetPlanResultSummary pr))
                    (PlanDrift (Notification d) dir workspace (GetPlanResultSummary pr)) ?s3"
        have a3: "accounted s2 None ?s3"
          by (simp add: accounted_def increments_def propagated_def)
        have a4: "accounted ?s3 (map_option (Wrapf (''failed to notify of plan drift in '' @ dir)) (fst ?n)) (snd ?n)"
          by (rule accounted_notification) simp
        have eq: "queryAndClassify d dir workspace s =
            (map_option (Wrapf (''failed to notify of plan drift in '' @ dir)) (fst ?n), snd ?n)"
          using q Inr st r2 True
          by (cases ?n; cases "fst ?n") (simp_all add: queryAndClassify_def Let_def)
        from accounted_seq [OF accounted_seq [OF a12 a3] a4] eq show ?thesis by simp
      qed
    qed
  qed
qed


lemma accounted_checkWorkspace:
  "accounted s (fst (checkWorkspace d dir workspace s)) (snd (checkWorkspace d dir workspace s))"
proof -
  let ?key = "ConsiderDriftChecked dir workspace"
  obtain res s1 where g: "invokeR (CallGetDriftCheckResult ?key)
      (GetDriftCheckResult (ResultCache d) ?key) s = (res, s1)"
    by (cases "invokeR (CallGetDriftCheckResult ?key) (GetDriftCheckResult (ResultCache d) ?key) s")
  have a1: "accounted s r' s1" for r'
    using accounted_invokeR [of "CallGetDriftCheckResult ?key" s r'
        "GetDriftCheckResult (ResultCache d) ?key"] g by simp
  obtain r2 s2 where del: "invoke (CallDeleteDriftCheckResult ?key)
      (DeleteDriftCheckResult (ResultCache d) ?key) s1 = (r2, s2)"
    by (cases "invoke (CallDeleteDriftCheckResult ?key)
      (DeleteDriftCheckResult (ResultCache d) ?key) s1")
  have a2: "accounted s1 r' s2" for r'
    using accounted_invoke [of "CallDeleteDriftCheckResult ?key" s1 r'
        "DeleteDriftCheckResult (ResultCache d) ?key"] del by simp
  note q1 = accounted_seq [OF a1 accounted_queryAndClassify [of s1 d dir workspace]]
  note q2 = accounted_seq [OF accounted_seq [OF a1 a2] accounted_queryAndClassify [of s2 d dir workspace]]
  show ?thesis
  proof (cases res)
    case (Inl e)
    with g a1 show ?thesis by (simp add: checkWorkspace_def Let_def)
  next
    case (Inr cached)
    show ?thesis
    proof (cases cached)
      case None
      with g Inr q1 show ?thesis by (simp add: checkWorkspace_def Let_def)
    next
      case (Some cacheVal)
      show ?thesis
      proof (cases "Since (Now d (world s1)) (When cacheVal) < CacheValidDuration d")
        case True
        with g Inr Some a1 show ?thesis by (simp add: checkWorkspace_def Let_def)
      next
        case False
        with g Inr Some del a1 a2 q2 accounted_seq [OF a1 a2] show ?thesis
          by (cases r2) (simp_all add: checkWorkspace_def Let_def)
      qed
    qed
  qed
qed

lemma accounted_checkWorkspaces:
  "accounted s (fst (checkWorkspaces d dir workspaces s)) (snd (checkWorkspaces d dir workspaces s))"
proof (induction workspaces arbitrary: s)
  case Nil
  show ?case by (simp add: accounted_refl)
next
  case (Cons workspace workspaces)
  obtain r s1 where c: "checkWorkspace d dir workspace s = (r, s1)"
    by (cases "checkWorkspace d dir workspace s")
  with accounted_checkWorkspace [of s d dir workspace] have a: "accounted s r s1" by simp
  show ?case
  proof (cases r)
    case None
    with c a accounted_seq [OF _ Cons.IH [of s1]] show ?thesis by simp
  next
    case (Some e)
    with c a show ?thesis by simp
  qed
qed

lemma accounted_runningFunc:
  "accounted s (fst (runningFunc d ws dir s)) (snd (runningFunc d ws dir s))"
  by (simp add: runningFunc_def accounted_refl accounted_checkWorkspaces)

lemma accounted_runInOrder:
  assumes "\<And>f s. f \<in> set toRun \<Longrightarrow> accounted s (fst (f s)) (snd (f s))"
  shows "accounted s (fst (runInOrder toRun s)) (snd (runInOrder toRun s))"
  using assms
proof (induction toRun arbitrary: s)
  case Nil
  show ?case by (simp add: accounted_refl)
next
  case (Cons f toRun)
  obtain r s1 where f: "f s = (r, s1)" by (cases "f s")
  with Cons.prems [of f s] have a: "accounted s r s1" by simp
  have rest: "accounted s1 (fst (runInOrder toRun s1)) (snd (runInOrder toRun s1))"
    by (rule Cons.IH) (simp add: Cons.prems)
  show ?case
  proof (cases r)
    case None
    with f a accounted_seq [OF _ rest] show ?thesis by simp
  next
    case (Some e)
    with f a show ?thesis by simp
  qed
qed

lemma accounted_notifyExtraWorkspaces:
  "accounted s (fst (notifyExtraWorkspaces d dir expected remote s))
     (snd (notifyExtraWorkspaces d dir expected remote s))"
proof (induction remote arbitrary: s)
  case Nil
  show ?case by (simp add: accounted_refl)
next
  case (Cons w remote)
  show ?case
  proof (cases "contains expected w")
    case True
    with Cons.IH [of s] show ?thesis by simp
  next
    case False
    let ?n = "invoke (CallExtraWorkspaceInRemote dir w) (ExtraWorkspaceInRemote (Notification d) dir w) s"
    let ?m = "''failed to notify of extra workspace '' @ w @ '' in '' @ dir"
    have a: "accounted s (map_option (Wrapf ?m) (fst ?n)) (snd ?n)"
      by (rule accounted_notification) simp
    obtain r s1 where n: "?n = (r, s1)" by (cases ?n)
    show ?thesis
    proof (cases r)
      case None
      with False n a accounted_seq [OF _ Cons.IH [of s1]] show ?thesis by simp
    next
      case (Some e)
      with False n a show ?thesis by simp
    qed
  qed
qed

lemma accounted_listAndReport:
  "accounted s (fst (listAndReport d ws dir s)) (snd (listAndReport d ws dir s))"
proof -
  let ?key = "ConsiderWorkspacesChecked dir"
  let ?expected = "index ws dir @ [''default'']"
  obtain r1 s1 where i: "invoke (CallInit dir) (Init (Terraform d) dir) s = (r1, s1)"
    by (cases "invoke (CallInit dir) (Init (Terraform d) dir) s")
  have a1: "accounted s r' s1" for r'
    using accounted_invoke [of "CallInit dir" s r' "Init (Terraform d) dir"] i by simp
  obtain r2 s2 where l: "invokeR (CallListWorkspaces dir) (ListWorkspaces (Terraform d) dir) s1 = (r2, s2)"
    by (cases "invokeR (CallListWorkspaces dir) (ListWorkspaces (Terraform d) dir) s1")
  have a2: "accounted s r' s2" for r'
    using accounted_seq [OF a1 accounted_invokeR [of "CallListWorkspaces dir" s1 r'
        "ListWorkspaces (Terraform d) dir"]] l by simp
  show ?thesis
  proof (cases r1)
    case (Some e)
    with i a1 show ?thesis by (simp add: listAndReport_def Let_def)
  next
    case None
    note r1 = None
    show ?thesis
    proof (cases r2)
      case (Inl e)
      with i r1 l a2 show ?thesis by (simp add: listAndReport_def Let_def)
    next
      case (Inr remote)
      obtain r3 s3 where n: "notifyExtraWorkspaces d dir ?expected remote s2 = (r3, s3)"
        by (cases "notifyExtraWorkspaces d dir ?expected remote s2")
      with accounted_notifyExtraWorkspaces [of s2 d dir ?expected remote]
      have a3: "accounted s r3 s3" using accounted_seq [OF a2] by simp
      let ?v = "WorkspacesCheckedValue remote (Now d (world s3))"
      obtain r4 s4 where st: "invoke (CallStoreRemoteWorkspaces ?key ?v)
          (StoreRemoteWorkspaces (ResultCache d) ?key ?v) s3 = (r4, s4)"
        by (cases "invoke (CallStoreRemoteWorkspaces ?key ?v)
          (StoreRemoteWorkspaces (ResultCache d) ?key ?v) s3")
      have a4: "accounted s3 r' s4" for r'
        using accounted_invoke [of "CallStoreRemoteWorkspaces ?key ?v" s3 r'
            "StoreRemoteWorkspaces (ResultCache d) ?key ?v"] st by simp
      show ?thesis
      proof (cases r3)
        case (Some e)
        with i r1 l Inr n a3 show ?thesis by (simp add: listAndReport_def Let_def)
      next
        case None
        with i r1 l Inr n st accounted_seq [OF _ a4] a3 show ?thesis
          by (cases r4) (simp_all add: listAndReport_def Let_def)
      qed
    qed
  qed
qed

lemma accounted_runFunc:
  "accounted s (fst (runFunc d ws dir s)) (snd (runFunc d ws dir s))"
proof (cases "shouldSkipDirectory d dir")
  case True
  then show ?thesis by (simp add: runFunc_def accounted_refl)
next
  case False
  let ?key = "ConsiderWorkspacesChecked dir"
  obtain res s1 where g: "invokeR (CallGetRemoteWorkspaces ?key)
      (GetRemoteWorkspaces (ResultCache d) ?key) s = (res, s1)"
    by (cases "invokeR (CallGetRemoteWorkspaces ?key) (GetRemoteWorkspaces (ResultCache d) ?key) s")
  have a1: "accounted s r' s1" for r'
    using accounted_invokeR [of "CallGetRemoteWorkspaces ?key" s r'
        "GetRemoteWorkspaces (ResultCache d) ?key"] g by simp
  obtain r2 s2 where del: "invoke (CallDeleteRemoteWorkspaces ?key)
      (DeleteRemoteWorkspaces (ResultCache d) ?key) s1 = (r2, s2)"
    by (cases "invoke (CallDeleteRemoteWorkspaces ?key)
      (DeleteRemoteWorkspaces (ResultCache d) ?key) s1")
  have a2: "accounted s1 r' s2" for r'
    using accounted_invoke [of "CallDeleteRemoteWorkspaces ?key" s1 r'
        "DeleteRemoteWorkspaces (ResultCache d) ?key"] del by simp
  note q1 = accounted_seq [OF a1 accounted_listAndReport [of s1 d ws dir]]
  note q2 = accounted_seq [OF accounted_seq [OF a1 a2] accounted_listAndReport [of s2 d ws dir]]
  show ?thesis
  proof (cases res)
    case (Inl e)
    with False g a1 show ?thesis by (simp add: runFunc_def Let_def)
  next
    case (Inr cached)
    show ?thesis
    proof (cases cached)
      case None
      with False g Inr q1 show ?thesis by (simp add: runFunc_def Let_def)
    next
      case (Some cacheVal)
      show ?thesis
      proof (cases "Since (Now d (world s1)) (WorkspacesWhen cacheVal) < CacheValidDuration d")
        case True
        with \<open>\<not> shouldSkipDirectory d dir\<close> g Inr Some a1 show ?thesis
          by (simp add: runFunc_def Let_def)
      next
        case stale: False
        with \<open>\<not> shouldSkipDirectory d dir\<close> g Inr Some del a1 a2 q2 accounted_seq [OF a1 a2]
        show ?thesis
          by (cases r2) (simp_all add: runFunc_def Let_def)
      qed
    qed
  qed
qed

lemma accounted_FindDriftedWorkspaces:
  assumes "FindDriftedWorkspaces d ws s = Some (r, s')"
  shows "accounted s r s'"
proof -
  let ?toRun = "map (runningFunc d ws) (SortedKeys ws)"
  have "accounted s (fst (runInOrder ?toRun s)) (snd (runInOrder ?toRun s))"
    by (rule accounted_runInOrder) (auto simp: accounted_runningFunc)
  with assms show ?thesis
    by (auto simp: FindDriftedWorkspaces_def drainAndExecute_def split: if_splits)
qed

lemma accounted_FindExtraWorkspaces:
  assumes "FindExtraWorkspaces d ws s = Some (r, s')"
  shows "accounted s r s'"
proof -
  let ?toRun = "map (runFunc d ws) (SortedKeys ws)"
  have "accounted s (fst (runInOrder ?toRun s)) (snd (runInOrder ?toRun s))"
    by (rule accounted_runInOrder) (auto simp: accounted_runFunc)
  with assms show ?thesis
    by (auto simp: FindExtraWorkspaces_def drainAndExecute_def accounted_refl split: if_splits)
qed

lemma propagated_filter: "propagated r tr \<Longrightarrow> propagated r (filter P tr)"
  by (auto simp: propagated_def)

lemma finished_error:
  assumes "accounted s (Some e) s'"
  shows "finished s (Some e) s'"
  using assms by (auto simp: accounted_def finished_def intro: propagated_filter)

lemma finished_seq:
  assumes "accounted s None s1" and "finished s1 r s2"
  shows "finished s r s2"
proof -
  from assms(1) obtain xs where xs: "trace s1 = trace s @ xs" "summaryNotifications xs = []"
      "DriftedWorkspaceCount s1 = DriftedWorkspaceCount s + of_nat (increments xs)" "propagated None xs"
    by (auto simp: accounted_def)
  from assms(2) obtain ys where ys: "trace s2 = trace s1 @ ys"
      "summaryNotifications ys = (if r = None then [[DriftedWorkspaceCount s2]] else [])"
      "DriftedWorkspaceCount s2 = DriftedWorkspaceCount s1 + of_nat (increments ys)"
      "propagated r (filter notSummary ys)"
    by (auto simp: finished_def)
  have "trace s2 = trace s @ (xs @ ys)" using xs ys by simp
  moreover have "summaryNotifications (xs @ ys) = (if r = None then [[DriftedWorkspaceCount s2]] else [])"
    using xs ys by (simp add: summaryNotifications_append)
  moreover have "DriftedWorkspaceCount s2 = DriftedWorkspaceCount s + of_nat (increments (xs @ ys))"
    using xs ys by (simp add: increments_append)
  moreover have "propagated r (filter notSummary (xs @ ys))"
    using xs ys by (simp add: propagated_append propagated_filter)
  ultimately show ?thesis unfolding finished_def by blast
qed

lemma finished_call:
  assumes "finished s r s1" and "trace s2 = trace s1 @ [Call c x]"
    and "DriftedWorkspaceCount s2 = DriftedWorkspaceCount s1" and "\<not> isNotification (Call c None)"
  shows "finished s r s2"
proof -
  from assms(1) obtain xs where xs: "trace s1 = trace s @ xs"
      "summaryNotifications xs = (if r = None then [[DriftedWorkspaceCount s1]] else [])"
      "DriftedWorkspaceCount s1 = DriftedWorkspaceCount s + of_nat (increments xs)"
      "propagated r (filter notSummary xs)"
    by (auto simp: finished_def)
  have n: "\<not> isNotification (Call c y)" for y using assms(4) by (cases c) simp_all
  have q: "summaryNotifications [Call c x] = []" using assms(4) by (cases c) simp_all
  have "propagated None [Call c x]" using n by (simp add: propagated_def)
  then have p: "propagated r (filter notSummary xs @ filter notSummary [Call c x])"
    using xs(4) n by (auto simp: propagated_def)
  have "trace s2 = trace s @ (xs @ [Call c x])" using xs assms(2) by simp
  moreover have "summaryNotifications (xs @ [Call c x]) = (if r = None then [[DriftedWorkspaceCount s2]] else [])"
    using xs q assms(3) by (simp add: summaryNotifications_append)
  moreover have "DriftedWorkspaceCount s2 = DriftedWorkspaceCount s + of_nat (increments (xs @ [Call c x]))"
    using xs assms(3) by (simp add: increments_append increments_def)
  moreover have "propagated r (filter notSummary (xs @ [Call c x]))"
    using p by simp
  ultimately show ?thesis unfolding finished_def by blast
qed

lemma finished_summary:
  assumes "trace s' = trace s @ [Call (CallWorkspaceDriftSummary [DriftedWorkspaceCount s]) x]"
    and "DriftedWorkspaceCount s' = DriftedWorkspaceCount s"
  shows "finished s None s'"
  using assms by (simp add: finished_def increments_def notSummary_def propagated_def)

lemma finished_driftChecks:
  assumes "driftChecks d location s = Some (r, s')"
  shows "finished s r s'"
proof -
  let ?gen = "if AutoGenerateConfig d
            then invoke CallGenerateAtlantisProjectsFile (generateAtlantisProjectsFile d) s
            else (None, s)"
  obtain r1 s1 where gen: "?gen = (r1, s1)" by (cases ?gen)
  have a1: "accounted s r' s1" for r'
    using gen accounted_invoke [of CallGenerateAtlantisProjectsFile s r' "generateAtlantisProjectsFile d"]
    by (auto simp: accounted_refl split: if_splits)
  show ?thesis
  proof (cases r1)
    case (Some e)
    with gen assms have "r = Some e" "s' = s1" by (simp_all add: driftChecks_def)
    with a1 show ?thesis by (simp add: finished_error)
  next
    case None
    note r1 = None
    let ?c = "CallParseRepoConfigFromDir (AtlantisRepoYmlPath d) location"
    let ?f = "ParseRepoConfigFromDir d (AtlantisRepoYmlPath d) location"
    obtain r2 s2 where parse: "invokeR ?c ?f s1 = (r2, s2)" by (cases "invokeR ?c ?f s1")
    have a2: "accounted s r' s2" for r'
      using accounted_seq [OF a1 accounted_invokeR [of ?c s1 r' ?f]] parse by simp
    show ?thesis
    proof (cases r2)
      case (Inl e)
      with gen r1 parse assms have "r = Some (Wrapf ''failed to parse repo config'' e)" "s' = s2"
        by (simp_all add: driftChecks_def)
      with a2 show ?thesis by (simp add: finished_error)
    next
      case (Inr workspaces)
      from gen r1 parse Inr assms obtain r3 s3 where
        fd: "FindDriftedWorkspaces d workspaces s2 = Some (r3, s3)"
        by (cases "FindDriftedWorkspaces d workspaces s2") (auto simp: driftChecks_def)
      have a3: "accounted s r3 s3"
        using accounted_seq [OF a2 accounted_FindDriftedWorkspaces [OF fd]] .
      show ?thesis
      proof (cases r3)
        case (Some e)
        with gen r1 parse Inr fd assms
        have "r = Some (Wrapf ''failed to find drifted workspaces'' e)" "s' = s3"
          by (simp_all add: driftChecks_def)
        with a3 Some show ?thesis by (simp add: finished_error accounted_wrap)
      next
        case None
        note r3 = None
        from gen r1 parse Inr fd r3 assms obtain r4 s4 where
          fe: "FindExtraWorkspaces d workspaces s3 = Some (r4, s4)"
          by (cases "FindExtraWorkspaces d workspaces s3") (auto simp: driftChecks_def)
        have a4: "accounted s r4 s4"
          using accounted_seq [OF a3 [unfolded r3] accounted_FindExtraWorkspaces [OF fe]] .
        show ?thesis
        proof (cases r4)
          case (Some e)
          with gen r1 parse Inr fd r3 fe assms
          have "r = Some (Wrapf ''failed to find extra workspaces'' e)" "s' = s4"
            by (simp_all add: driftChecks_def)
          with a4 Some show ?thesis by (simp add: finished_error accounted_wrap)
        next
          case None
          let ?n = "invoke (CallWorkspaceDriftSummary [DriftedWorkspaceCount s4])
                      (WorkspaceDriftSummary (Notification d) [DriftedWorkspaceCount s4]) s4"
          from gen r1 parse Inr fd r3 fe None assms have res: "r = None" "s' = snd ?n"
            by (simp_all add: driftChecks_def split: prod.splits)
          have "finished s4 None (snd ?n)"
            by (rule finished_summary [where x = "fst (WorkspaceDriftSummary (Notification d) [DriftedWorkspaceCount s4] (world s4))"])
               (simp_all add: invoke_def split: prod.splits)
          with finished_seq [OF a4 [unfolded None]] res show ?thesis by simp
        qed
      qed
    qed
  qed
qed

lemma accounted_CheckOutTerraformRepo:
  "accounted s r' (snd (CheckOutTerraformRepo d repo s))"
proof -
  obtain r1 s1 where t: "invokeR CallGetAccessToken (GetAccessToken d) s = (r1, s1)"
    by (cases "invokeR CallGetAccessToken (GetAccessToken d) s")
  have a1: "accounted s r' s1" for r'
    using accounted_invokeR [of CallGetAccessToken s r' "GetAccessToken d"] t by simp
  show ?thesis
  proof (cases r1)
    case (Inl e)
    with t a1 show ?thesis by (simp add: CheckOutTerraformRepo_def)
  next
    case (Inr token)
    let ?url = "''https://x-access-token:'' @ token @ ''@github.com/'' @ repo @ ''.git''"
    obtain r2 s2 where c: "invokeR (CallClone ?url) (Clone d ?url) s1 = (r2, s2)"
      by (cases "invokeR (CallClone ?url) (Clone d ?url) s1")
    have "accounted s r' s2"
      using accounted_seq [OF a1 accounted_invokeR [of "CallClone ?url" s1 r' "Clone d ?url"]] c
      by simp
    with t Inr c show ?thesis
      by (cases r2) (simp_all add: CheckOutTerraformRepo_def Let_def)
  qed
qed

text \<open>
  Every run that returns has sent its summary once, with the counter, exactly when the
  result is nil; its counter grew by the number of increments logged; and every failed
  notification other than the summary is in the chain of the error it returned.
\<close>

lemma finished_Drift:
  assumes "Drift d s = Some (r, s')"
  shows "finished s r s'"
proof -
  obtain r1 s1 where co: "CheckOutTerraformRepo d (Repo d) s = (r1, s1)"
    by (cases "CheckOutTerraformRepo d (Repo d) s")
  have a1: "accounted s r' s1" for r'
    using accounted_CheckOutTerraformRepo [of s r' d "Repo d"] co by simp
  show ?thesis
  proof (cases r1)
    case (Inl e)
    with co assms have "r = Some (Wrapf (''failed to checkout repo '' @ Repo d) e)" "s' = s1"
      by (simp_all add: Drift_def)
    with a1 show ?thesis by (simp add: finished_error)
  next
    case (Inr location)
    let ?s1 = "s1\<lparr>world := SetDirectory (Terraform d) location (world s1)\<rparr>"
    have "accounted s1 None ?s1" by (simp add: accounted_def increments_def propagated_def)
    with a1 have a2: "accounted s None ?s1" by (rule accounted_seq)
    from co Inr assms obtain s2 where dc: "driftChecks d location ?s1 = Some (r, s2)"
      and s': "s' = snd (invoke (CallRemoveAll location) (RemoveAll d location) s2)"
      by (cases "driftChecks d location ?s1") (auto simp: Drift_def)
    have f2: "finished s r s2" using finished_seq [OF a2 finished_driftChecks [OF dc]] .
    show ?thesis
      unfolding s'
      by (rule finished_call [OF f2, where c = "CallRemoveAll location"
            and x = "fst (RemoveAll d location (world s2))"])
         (simp_all add: invoke_def split: prod.splits)
  qed
qed

lemma Drift_sends_one_summary:
  assumes "Drift d s = Some (r, s')"
  shows "summaryNotifications (eventsSince s s') = (if r = None then [[DriftedWorkspaceCount s']] else [])"
  using finished_Drift [OF assms] by (auto simp: finished_def eventsSince_def)

lemma Drift_counter_is_the_number_of_increments:
  assumes "Drift d s = Some (r, s')"
  shows "DriftedWorkspaceCount s' = DriftedWorkspaceCount s + of_nat (increments (eventsSince s s'))"
  using finished_Drift [OF assms] by (auto simp: finished_def eventsSince_def)

lemma Drift_returns_the_error_of_a_drift_or_extra_notification:
  assumes "Drift d s = Some (r, s')"
    and "Call c (Some e) \<in> set (eventsSince s s')"
    and "c = CallPlanDrift dir w cliffnote \<or> c = CallExtraWorkspaceInRemote dir w"
  shows "\<exists>err. r = Some err \<and> e \<in> set (chain err)"
proof -
  from finished_Drift [OF assms(1)] obtain tr where tr: "trace s' = trace s @ tr"
    and p: "propagated r (filter notSummary tr)"
    by (auto simp: finished_def)
  from tr have "eventsSince s s' = tr" by (simp add: eventsSince_def)
  with assms(2,3) have "Call c (Some e) \<in> set (filter notSummary tr)"
    by (auto simp: notSummary_def)
  moreover have "isNotification (Call c (Some e))" using assms(3) by auto
  ultimately show ?thesis using p unfolding propagated_def by blast
qed

text \<open>With \<^verbatim>\<open>ParallelRuns <= 1\<close> the run returns.\<close>

lemma Drift_returns:
  assumes "ParallelRuns d \<le> 1"
  shows "\<exists>r s'. Drift d s = Some (r, s')"
  using assms
  by (auto simp: Drift_def driftChecks_def FindDriftedWorkspaces_def FindExtraWorkspaces_def
                 drainAndExecute_def split: prod.splits sum.splits option.splits)

section \<open>The summary notification\<close>

text \<open>
  C1. In the scenario of two directories with one workspace each, where the plan of
  \<^verbatim>\<open>infra/db\<close> has changes and the plan of \<^verbatim>\<open>infra/network\<close> has none, the run returns
  nil, the counter is 1, and the run sends one summary notification. Its arguments are the
  counter alone, \<open>[1]\<close>, where the interface \<^verbatim>\<open>Notification.WorkspaceDriftSummary\<close> takes the
  three counts 1, 1 and 2.
\<close>

theorem Drift_summary_carries_the_counter_only:
  "map_option (\<lambda>(result, s). (result, DriftedWorkspaceCount s, summaryNotifications (trace s)))
     (Drift exampleDrifter emptyMemory) = Some (None, 1, [[1]])"
  by (simp add: run_defs engine_defs example_defs)

text \<open>
  C2. With a sink that fails on every notification, a run that finds a drift returns the
  error of the drift notification, wrapped; a run that finds nothing reaches the summary
  notification, whose error is dropped: the run returns nil.
\<close>

theorem Drift_drops_the_error_of_the_summary:
  "map_option (\<lambda>(result, s). (result, filter isNotification (trace s)))
     (Drift sinkDownDrifter emptyMemory) =
     Some (Some (Wrapf ''failed to find drifted workspaces''
                  (Wrapf ''failed to notify of plan drift in infra/db'' (ErrorString ''webhook down''))),
           [Call (CallPlanDrift ''infra/db'' ''prod'' ''Plan: 1 to add'') (Some (ErrorString ''webhook down''))])
   \<and> map_option (\<lambda>(result, s). (result, filter isNotification (trace s)))
     (Drift quietSinkDownDrifter emptyMemory) =
     Some (None, [Call (CallWorkspaceDriftSummary [0]) (Some (ErrorString ''webhook down''))])"
  by (simp add: run_defs engine_defs example_defs)

end
